theory Spec2Isabelle
  imports Main "HOL-Library.Monad_Syntax"
begin

section \<open>Stalker: tasks and time logs (stalker/models/task.py)\<close>

text \<open>
  A shallow embedding of \<^verbatim>\<open>stalker/models/task.py\<close>: the validators and event
  listeners of \<^verbatim>\<open>TimeLog\<close> and \<^verbatim>\<open>Task\<close>. Python integers are unbounded
  (\<^typ>\<open>int\<close>); a \<^verbatim>\<open>datetime\<close> is a number of whole seconds and a
  \<^verbatim>\<open>timedelta\<close> the difference of two of them; every \<^verbatim>\<open>raise\<close> is a value
  of \<open>error\<close> on the left of a sum. A leading underscore of a Python name is dropped
  (\<^verbatim>\<open>_validate_priority\<close> is \<open>validate_priority\<close>).
\<close>

subsection \<open>Python values and exceptions\<close>

text \<open>
  The values a caller can hand to a setter. A float is not-a-number, an infinity with
  its sign (\<open>True\<close> for the negative one), or the finite binary fraction
  \<open>m * 2 ^ e\<close>. \<open>PyObject\<close> is any object without a conversion to a number
  (a list, a dict, a \<^verbatim>\<open>Task\<close>). The module is written for Python 2 (it uses the
  built-in \<^verbatim>\<open>unicode\<close>), which has two types of whole numbers: \<open>PyInt\<close> is an
  \<^verbatim>\<open>int\<close>, a number from \<^verbatim>\<open>-sys.maxint - 1\<close> to \<^verbatim>\<open>sys.maxint\<close>, and \<open>PyLong\<close> is a
  \<^verbatim>\<open>long\<close>, a number of any size.
\<close>

datatype pyfloat = NaN | Infinity bool | Finite int int

datatype pyval =
    PyNone | PyBool bool | PyInt int | PyLong int | PyFloat pyfloat | PyStr string | PyObject

type_synonym task_id = nat
type_synonym user_id = nat

text \<open>
  A \<^verbatim>\<open>TimeLog\<close> as \<^verbatim>\<open>TimeLog.__eq__\<close> sees it: its name, the task and the
  resource it is attached to (\<open>None\<close> before they are set) and its interval.
\<close>

record time_log =
  tl_name :: string
  tl_task :: "task_id option"
  tl_resource :: "user_id option"
  tl_start :: int
  tl_end :: int

text \<open>
  \<^verbatim>\<open>OverBookedError\<close> is raised with the message
  \<^verbatim>\<open>"The resource %s is overly booked with %s and %s" % (resource, self, time_log)\<close>:
  the model keeps the three objects the message is formatted from.
\<close>

datatype error =
    TypeError
  | ValueError
  | OverflowError
  | OverBookedError user_id time_log time_log
  | CircularDependencyError

subsection \<open>The built-in \<^verbatim>\<open>int()\<close>\<close>

definition is_space :: "char \<Rightarrow> bool" where
  "is_space c = (c \<in> set [CHR 0x20, CHR 0x09, CHR 0x0A, CHR 0x0B, CHR 0x0C, CHR 0x0D])"

definition is_digit :: "char \<Rightarrow> bool" where
  "is_digit c = (48 \<le> (of_char c :: nat) \<and> (of_char c :: nat) \<le> 57)"

definition strip :: "string \<Rightarrow> string" where
  "strip s = rev (dropWhile is_space (rev (dropWhile is_space s)))"

definition digits_value :: "string \<Rightarrow> int" where
  "digits_value ds = foldl (\<lambda>acc c. 10 * acc + (int (of_char c) - 48)) 0 ds"

definition parse_digits :: "string \<Rightarrow> int option" where
  "parse_digits ds = (if ds \<noteq> [] \<and> list_all is_digit ds then Some (digits_value ds) else None)"

text \<open>
  \<^verbatim>\<open>int(s)\<close> of a string: surrounding white space is dropped, then an optional sign
  and at least one decimal digit must remain; anything else is a \<^verbatim>\<open>ValueError\<close>.
\<close>

fun parse_int :: "string \<Rightarrow> int option" where
  "parse_int s =
     (case strip s of
        [] \<Rightarrow> None
      | c # cs \<Rightarrow>
          if c = CHR ''-'' then map_option uminus (parse_digits cs)
          else if c = CHR ''+'' then parse_digits cs
          else parse_digits (c # cs))"

text \<open>\<^verbatim>\<open>int(x)\<close> of a finite float rounds towards zero.\<close>

definition trunc_float :: "int \<Rightarrow> int \<Rightarrow> int" where
  "trunc_float m e =
     (if 0 \<le> e then m * 2 ^ nat e
      else if 0 \<le> m then m div 2 ^ nat (- e)
      else - ((- m) div 2 ^ nat (- e)))"

text \<open>
  \<^verbatim>\<open>int(x)\<close> in Python 2 returns an \<^verbatim>\<open>int\<close> when the number lies between
  \<^verbatim>\<open>-sys.maxint - 1\<close> and \<^verbatim>\<open>sys.maxint\<close> and a \<^verbatim>\<open>long\<close> otherwise;
  \<^verbatim>\<open>sys.maxint\<close> depends on the platform and is the parameter \<open>maxint\<close>.
\<close>

definition int_or_long :: "int \<Rightarrow> int \<Rightarrow> pyval" where
  "int_or_long maxint n = (if - maxint - 1 \<le> n \<and> n \<le> maxint then PyInt n else PyLong n)"

fun py_int :: "int \<Rightarrow> pyval \<Rightarrow> error + pyval" where
  "py_int maxint PyNone = Inl TypeError"
| "py_int maxint (PyBool b) = Inr (PyInt (if b then 1 else 0))"
| "py_int maxint (PyInt n) = Inr (PyInt n)"
| "py_int maxint (PyLong n) = Inr (int_or_long maxint n)"
| "py_int maxint (PyFloat NaN) = Inl ValueError"
| "py_int maxint (PyFloat (Infinity negative)) = Inl OverflowError"
| "py_int maxint (PyFloat (Finite m e)) = Inr (int_or_long maxint (trunc_float m e))"
| "py_int maxint (PyStr s) =
     (case parse_int s of None \<Rightarrow> Inl ValueError | Some n \<Rightarrow> Inr (int_or_long maxint n))"
| "py_int maxint PyObject = Inl TypeError"

text \<open>
  \<^verbatim>\<open>isinstance(x, int)\<close>: \<^verbatim>\<open>bool\<close> is a subclass of \<^verbatim>\<open>int\<close>, and a \<^verbatim>\<open>long\<close> is
  not an \<^verbatim>\<open>int\<close>.
\<close>

fun isinstance_int :: "pyval \<Rightarrow> bool" where
  "isinstance_int (PyInt n) = True"
| "isinstance_int (PyBool b) = True"
| "isinstance_int v = False"

fun int_value :: "pyval \<Rightarrow> int" where
  "int_value (PyInt n) = n"
| "int_value (PyBool b) = (if b then 1 else 0)"
| "int_value v = 0"

subsection \<open>\<^verbatim>\<open>Task._validate_priority\<close>\<close>

text \<open>
  \<^verbatim>\<open>
  try:
      priority = int(priority)
  except (ValueError, TypeError):
      pass
  if not isinstance(priority, int):
      priority = defaults.task_priority
  if priority < 0:
      priority = 0
  elif priority > 1000:
      priority = 1000
  return priority
  \<close>
  \<^verbatim>\<open>defaults.task_priority\<close> is configuration (the parameter \<open>task_priority\<close>; the
  docstring of \<^verbatim>\<open>Task\<close> gives 500). The \<^verbatim>\<open>except\<close> clause names two exception
  classes: any other exception of \<^verbatim>\<open>int()\<close> leaves the validator.
\<close>

definition try_int :: "int \<Rightarrow> pyval \<Rightarrow> error + pyval" where
  "try_int maxint priority =
     (case py_int maxint priority of
        Inr v \<Rightarrow> Inr v
      | Inl e \<Rightarrow> if e = ValueError \<or> e = TypeError then Inr priority else Inl e)"

definition validate_priority :: "int \<Rightarrow> int \<Rightarrow> pyval \<Rightarrow> error + int" where
  "validate_priority maxint task_priority priority =
     (case try_int maxint priority of
        Inl e \<Rightarrow> Inl e
      | Inr priority1 \<Rightarrow>
          (let priority2 = (if \<not> isinstance_int priority1 then task_priority
                            else int_value priority1)
           in if priority2 < 0 then Inr 0
              else if priority2 > 1000 then Inr 1000
              else Inr priority2))"

subsection \<open>\<^verbatim>\<open>TimeLog._validate_resource\<close>\<close>

text \<open>
  A \<^verbatim>\<open>User\<close> with the time logs already booked for it
  (\<^verbatim>\<open>resource.time_logs\<close>), and what a caller can pass as the resource: nothing,
  an object that is not a \<^verbatim>\<open>User\<close>, or a user.
\<close>

record user =
  user_ident :: user_id
  user_time_logs :: "time_log list"

datatype resource_arg = ResourceNone | ResourceNotUser | ResourceUser user

text \<open>
  The test of the loop body, for the time log being validated (\<open>self\<close>) and one
  time log of the resource:
  \<^verbatim>\<open>
  time_log.start == self.start or time_log.end == self.end or
  time_log.start < self.end < time_log.end or
  time_log.start < self.start < time_log.end
  \<close>
\<close>

definition overbooked :: "time_log \<Rightarrow> time_log \<Rightarrow> bool" where
  "overbooked self time_log =
     (tl_start time_log = tl_start self \<or> tl_end time_log = tl_end self
      \<or> (tl_start time_log < tl_end self \<and> tl_end self < tl_end time_log)
      \<or> (tl_start time_log < tl_start self \<and> tl_start self < tl_end time_log))"

text \<open>
  The loop \<^verbatim>\<open>for time_log in resource.time_logs\<close>: the first time log that is not
  \<open>self\<close> (by \<^verbatim>\<open>TimeLog.__eq__\<close>: same name, task, resource, start and end) and
  passes the test raises.
\<close>

fun check_overbooking :: "user_id \<Rightarrow> time_log \<Rightarrow> time_log list \<Rightarrow> error + unit" where
  "check_overbooking r self [] = Inr ()"
| "check_overbooking r self (time_log # rest) =
     (if time_log \<noteq> self \<and> overbooked self time_log
      then Inl (OverBookedError r self time_log)
      else check_overbooking r self rest)"

definition validate_resource :: "time_log \<Rightarrow> resource_arg \<Rightarrow> error + user" where
  "validate_resource self resource =
     (case resource of
        ResourceNone \<Rightarrow> Inl TypeError
      | ResourceNotUser \<Rightarrow> Inl TypeError
      | ResourceUser u \<Rightarrow>
          (case check_overbooking (user_ident u) self (user_time_logs u) of
             Inl e \<Rightarrow> Inl e
           | Inr _ \<Rightarrow> Inr u))"

subsection \<open>Tasks and the store\<close>

text \<open>
  The schedule units \<^verbatim>\<open>'min', 'h', 'd', 'w', 'm', 'y'\<close>, the schedule models
  \<^verbatim>\<open>'effort', 'length', 'duration'\<close> and the constants \<^verbatim>\<open>CONSTRAIN_NONE = 0\<close> to
  \<^verbatim>\<open>CONSTRAIN_BOTH = 3\<close>.
\<close>

datatype schedule_unit = Minute | Hour | Day | Week | Month | Year

datatype schedule_model = Effort | Length | Duration

datatype schedule_constraint = CONSTRAIN_NONE | CONSTRAIN_START | CONSTRAIN_END | CONSTRAIN_BOTH

text \<open>
  A \<^verbatim>\<open>Task\<close> row. Tasks refer to each other by identifier; a private column
  \<^verbatim>\<open>_x\<close> is the field \<open>x_col\<close>, so \<open>schedule_seconds_col\<close> and
  \<open>total_logged_seconds_col\<close> are the two nullable cache columns. The schedule timing
  is a whole number.
\<close>

record task =
  parent :: "task_id option"
  children :: "task_id list"
  depends :: "task_id list"
  time_logs :: "time_log list"
  schedule_timing :: int
  schedule_unit :: schedule_unit
  schedule_model :: schedule_model
  schedule_constraint :: schedule_constraint
  schedule_seconds_col :: "int option"
  total_logged_seconds_col :: "int option"
  start_col :: int
  end_col :: int
  duration_col :: int

text \<open>
  The store: every task by its identifier, the configuration that
  \<^verbatim>\<open>stalker.defaults\<close> holds (the length of a schedule unit in seconds for each
  schedule model, the calendar length of a unit that
  \<^verbatim>\<open>datetime_units_to_timedelta_kwargs\<close> gives, where \<open>None\<close> is a unit the table
  does not have, and \<^verbatim>\<open>timing_resolution\<close>), and the clock
  (\<^verbatim>\<open>datetime.datetime.now()\<close>).
\<close>

record db =
  tasks :: "task_id \<Rightarrow> task"
  unit_seconds :: "schedule_model \<Rightarrow> schedule_unit \<Rightarrow> int"
  datetime_units_to_timedelta :: "schedule_unit \<Rightarrow> int option"
  timing_resolution :: int
  now :: int

definition is_container :: "db \<Rightarrow> task_id \<Rightarrow> bool" where
  "is_container db t = (length (children (tasks db t)) \<noteq> 0)"

definition is_leaf :: "db \<Rightarrow> task_id \<Rightarrow> bool" where
  "is_leaf db t = (\<not> is_container db t)"

definition update_task :: "task_id \<Rightarrow> (task \<Rightarrow> task) \<Rightarrow> db \<Rightarrow> db" where
  "update_task t f db = db\<lparr>tasks := (tasks db)(t := f (tasks db t))\<rparr>"

subsection \<open>Durations\<close>

text \<open>
  A \<^verbatim>\<open>timedelta\<close> of \<open>d\<close> seconds has \<^verbatim>\<open>days\<close> and \<^verbatim>\<open>seconds\<close> with
  \<open>0 \<le> seconds < 86400\<close>; the source turns it into seconds as
  \<^verbatim>\<open>duration.days * 86400 + duration.seconds\<close>.
\<close>

definition timedelta_days :: "int \<Rightarrow> int" where
  "timedelta_days d = d div 86400"

definition timedelta_seconds :: "int \<Rightarrow> int" where
  "timedelta_seconds d = d mod 86400"

definition timedelta_total :: "int \<Rightarrow> int" where
  "timedelta_total d = timedelta_days d * 86400 + timedelta_seconds d"

text \<open>
  Modelled from the spec: \<^verbatim>\<open>DateRangeMixin.duration\<close> and
  \<^verbatim>\<open>DateRangeMixin.total_seconds\<close> (stalker/models/mixins.py) are not among the
  sources. The spec gives a time log a start, an end and a derived duration: the
  duration is the end minus the start, and \<open>total_seconds\<close> is that duration in
  seconds.
\<close>

definition duration :: "time_log \<Rightarrow> int" where
  "duration time_log = tl_end time_log - tl_start time_log"

definition total_seconds :: "time_log \<Rightarrow> int" where
  "total_seconds time_log = timedelta_total (duration time_log)"

text \<open>
  Modelled from the spec: \<^verbatim>\<open>ScheduleMixin.to_seconds\<close> (stalker/models/mixins.py)
  is not among the sources. The spec derives the schedule seconds of a leaf from its
  timing, unit and model: the timing times the length of the unit under the model.
\<close>

definition to_seconds :: "db \<Rightarrow> int \<Rightarrow> schedule_unit \<Rightarrow> schedule_model \<Rightarrow> int" where
  "to_seconds db timing unit model = timing * unit_seconds db model unit"

subsection \<open>\<^verbatim>\<open>Task.schedule_seconds\<close>, \<^verbatim>\<open>Task.total_logged_seconds\<close> and \<^verbatim>\<open>Task.update_schedule_info\<close>\<close>

text \<open>
  The getters call \<^verbatim>\<open>update_schedule_info\<close>, which calls the getters of the
  children: the recursion is bounded by a number of nested calls (the first argument
  of \<open>update_schedule_info\<close>), and \<open>None\<close> is a call that does not return within
  the bound. The getters take the bounded \<^verbatim>\<open>update_schedule_info\<close> as \<open>upd\<close>.

  \<^verbatim>\<open>
  def _total_logged_seconds_getter(self):
      seconds = 0
      if self.is_leaf:
          for time_log in self.time_logs:
              seconds += time_log.total_seconds
      else:
          if self._total_logged_seconds is None:
              self.update_schedule_info()
          return self._total_logged_seconds
      return seconds

  def _schedule_seconds_getter(self):
      if self.is_container:
          if self._schedule_seconds is None or self._schedule_seconds < 0:
              self.update_schedule_info()
          return self._schedule_seconds
      else:
          return self.to_seconds(
              self.schedule_timing, self.schedule_unit, self.schedule_model)
  \<close>
  A column that is still \<^verbatim>\<open>None\<close> when it is returned gives no number to the
  arithmetic of the caller: the model has no value for it.
\<close>

definition leaf_total_logged_seconds :: "db \<Rightarrow> task_id \<Rightarrow> int" where
  "leaf_total_logged_seconds db t =
     foldl (\<lambda>seconds time_log. seconds + total_seconds time_log) 0 (time_logs (tasks db t))"

definition leaf_schedule_seconds :: "db \<Rightarrow> task_id \<Rightarrow> int" where
  "leaf_schedule_seconds db t =
     to_seconds db (schedule_timing (tasks db t)) (schedule_unit (tasks db t))
       (schedule_model (tasks db t))"

definition return_col :: "(task \<Rightarrow> int option) \<Rightarrow> task_id \<Rightarrow> db \<Rightarrow> (int \<times> db) option" where
  "return_col col t db = (case col (tasks db t) of None \<Rightarrow> None | Some v \<Rightarrow> Some (v, db))"

definition total_logged_seconds_getter_with ::
  "(task_id \<Rightarrow> db \<Rightarrow> db option) \<Rightarrow> task_id \<Rightarrow> db \<Rightarrow> (int \<times> db) option" where
  "total_logged_seconds_getter_with upd self db =
     (if is_leaf db self then Some (leaf_total_logged_seconds db self, db)
      else if total_logged_seconds_col (tasks db self) = None
        then do { db1 \<leftarrow> upd self db; return_col total_logged_seconds_col self db1 }
        else return_col total_logged_seconds_col self db)"

definition schedule_seconds_getter_with ::
  "(task_id \<Rightarrow> db \<Rightarrow> db option) \<Rightarrow> task_id \<Rightarrow> db \<Rightarrow> (int \<times> db) option" where
  "schedule_seconds_getter_with upd self db =
     (if is_container db self then
        (if (case schedule_seconds_col (tasks db self) of None \<Rightarrow> True | Some v \<Rightarrow> v < 0)
         then do { db1 \<leftarrow> upd self db; return_col schedule_seconds_col self db1 }
         else return_col schedule_seconds_col self db)
      else Some (leaf_schedule_seconds db self, db))"

text \<open>
  The loop of \<^verbatim>\<open>update_schedule_info\<close> over the children, with the two sums and the
  store threaded through:
  \<^verbatim>\<open>
  for child in self.children:
      if child.is_container:
          child.update_schedule_info()
      if child.schedule_seconds:
          schedule_seconds += child.schedule_seconds
      if child.total_logged_seconds:
          total_logged_seconds += child.total_logged_seconds
  \<close>
\<close>

fun update_children ::
  "(task_id \<Rightarrow> db \<Rightarrow> db option) \<Rightarrow> task_id list \<Rightarrow> int \<Rightarrow> int \<Rightarrow> db
     \<Rightarrow> (int \<times> int \<times> db) option" where
  "update_children upd [] total_logged_seconds schedule_seconds db =
     Some (total_logged_seconds, schedule_seconds, db)"
| "update_children upd (child # rest) total_logged_seconds schedule_seconds db =
     do {
       db1 \<leftarrow> (if is_container db child then upd child db else Some db);
       (s1, db2) \<leftarrow> schedule_seconds_getter_with upd child db1;
       (schedule_seconds1, db3) \<leftarrow>
         (if s1 \<noteq> 0
          then do { (s2, db3) \<leftarrow> schedule_seconds_getter_with upd child db2;
                    Some (schedule_seconds + s2, db3) }
          else Some (schedule_seconds, db2));
       (l1, db4) \<leftarrow> total_logged_seconds_getter_with upd child db3;
       (total_logged_seconds1, db5) \<leftarrow>
         (if l1 \<noteq> 0
          then do { (l2, db5) \<leftarrow> total_logged_seconds_getter_with upd child db4;
                    Some (total_logged_seconds + l2, db5) }
          else Some (total_logged_seconds, db4));
       update_children upd rest total_logged_seconds1 schedule_seconds1 db5
     }"

text \<open>
  \<^verbatim>\<open>
  def update_schedule_info(self):
      if self.is_container:
          total_logged_seconds = 0
          schedule_seconds = 0
          for child in self.children: ...
          self._schedule_seconds = schedule_seconds
          self._total_logged_seconds = total_logged_seconds
      else:
          self._schedule_seconds = self.schedule_seconds
          self._total_logged_seconds = self.total_logged_seconds
  \<close>
\<close>

primrec update_schedule_info :: "nat \<Rightarrow> task_id \<Rightarrow> db \<Rightarrow> db option" where
  "update_schedule_info 0 = (\<lambda>self db. None)"
| "update_schedule_info (Suc n) = (\<lambda>self db.
     if is_container db self then
       do {
         (total_logged_seconds, schedule_seconds, db1) \<leftarrow>
           update_children (update_schedule_info n) (children (tasks db self)) 0 0 db;
         Some (update_task self
                 (\<lambda>t. t\<lparr>schedule_seconds_col := Some schedule_seconds,
                        total_logged_seconds_col := Some total_logged_seconds\<rparr>) db1)
       }
     else
       do {
         (s, db1) \<leftarrow> schedule_seconds_getter_with (update_schedule_info n) self db;
         db2 \<leftarrow> Some (update_task self (\<lambda>t. t\<lparr>schedule_seconds_col := Some s\<rparr>) db1);
         (l, db3) \<leftarrow> total_logged_seconds_getter_with (update_schedule_info n) self db2;
         Some (update_task self (\<lambda>t. t\<lparr>total_logged_seconds_col := Some l\<rparr>) db3)
       })"

definition schedule_seconds_getter :: "nat \<Rightarrow> task_id \<Rightarrow> db \<Rightarrow> (int \<times> db) option" where
  "schedule_seconds_getter n = schedule_seconds_getter_with (update_schedule_info n)"

definition total_logged_seconds_getter :: "nat \<Rightarrow> task_id \<Rightarrow> db \<Rightarrow> (int \<times> db) option" where
  "total_logged_seconds_getter n = total_logged_seconds_getter_with (update_schedule_info n)"


text \<open>
  The setters, for container tasks only, pass the difference on to the parent:
  \<^verbatim>\<open>
  def _total_logged_seconds_setter(self, seconds):
      if self.is_container:
          old_value = 0
          if self._total_logged_seconds:
              old_value = self._total_logged_seconds
          self._total_logged_seconds = seconds
          if self.parent:
              self.parent.total_logged_seconds = \
                  self.parent.total_logged_seconds - old_value + seconds

  def _schedule_seconds_setter(self, seconds):
      if self.is_container:
          if self.parent:
              current_value = 0
              if self._schedule_seconds:
                  current_value = self._schedule_seconds
              self.parent.schedule_seconds = \
                  self.parent.schedule_seconds - current_value + seconds
          self._schedule_seconds = seconds
  \<close>
\<close>

definition truthy_or_0 :: "int option \<Rightarrow> int" where
  "truthy_or_0 col = (case col of None \<Rightarrow> 0 | Some v \<Rightarrow> if v \<noteq> 0 then v else 0)"

primrec total_logged_seconds_setter :: "nat \<Rightarrow> task_id \<Rightarrow> int \<Rightarrow> db \<Rightarrow> db option" where
  "total_logged_seconds_setter 0 = (\<lambda>self seconds db. None)"
| "total_logged_seconds_setter (Suc n) = (\<lambda>self seconds db.
     if is_container db self then
       (let old_value = truthy_or_0 (total_logged_seconds_col (tasks db self));
            db1 = update_task self (\<lambda>t. t\<lparr>total_logged_seconds_col := Some seconds\<rparr>) db
        in case parent (tasks db1 self) of
             None \<Rightarrow> Some db1
           | Some p \<Rightarrow>
               do {
                 (v, db2) \<leftarrow> total_logged_seconds_getter n p db1;
                 total_logged_seconds_setter n p (v - old_value + seconds) db2
               })
     else Some db)"

primrec schedule_seconds_setter :: "nat \<Rightarrow> task_id \<Rightarrow> int \<Rightarrow> db \<Rightarrow> db option" where
  "schedule_seconds_setter 0 = (\<lambda>self seconds db. None)"
| "schedule_seconds_setter (Suc n) = (\<lambda>self seconds db.
     if is_container db self then
       do {
         db1 \<leftarrow> (case parent (tasks db self) of
                  None \<Rightarrow> Some db
                | Some p \<Rightarrow>
                    (let current_value = truthy_or_0 (schedule_seconds_col (tasks db self))
                     in do {
                          (v, db2) \<leftarrow> schedule_seconds_getter n p db;
                          schedule_seconds_setter n p (v - current_value + seconds) db2
                        }));
         Some (update_task self (\<lambda>t. t\<lparr>schedule_seconds_col := Some seconds\<rparr>) db1)
       }
     else Some db)"

subsection \<open>Results of validators\<close>

text \<open>
  A validator either does not return within the bound (\<open>None\<close>), raises
  (\<open>Some (Inl e)\<close>) or returns (\<open>Some (Inr x)\<close>). \<open>bind_result\<close> runs the rest of
  the code after a call that returned.
\<close>

definition bind_result :: "(error + 'a) option \<Rightarrow> ('a \<Rightarrow> (error + 'b) option) \<Rightarrow> (error + 'b) option" where
  "bind_result m f = (case m of None \<Rightarrow> None | Some (Inl e) \<Rightarrow> Some (Inl e) | Some (Inr x) \<Rightarrow> f x)"

definition returns :: "'a option \<Rightarrow> (error + 'a) option" where
  "returns m = map_option Inr m"

subsection \<open>Dates\<close>

text \<open>
  Modelled from the spec: \<^verbatim>\<open>DateRangeMixin._validate_dates\<close>
  (stalker/models/mixins.py) is not among the sources. The spec (4.1): given any two of
  start, end and duration the third is computed, the duration is never negative, and
  setting the start or the end directly recomputes the duration. So a start and an end
  that are in order are kept and the duration is their difference; a start or an end
  with a duration gives the other one. Where the spec says nothing (an end before the
  start, fewer than two values given) the model keeps the start (the end, when there
  is no start), takes a missing duration from \<^verbatim>\<open>timing_resolution\<close>, and does not let
  the duration go below zero.
\<close>

definition given_duration :: "db \<Rightarrow> int option \<Rightarrow> int" where
  "given_duration db d = max 0 (case d of None \<Rightarrow> timing_resolution db | Some x \<Rightarrow> x)"

definition validate_dates :: "db \<Rightarrow> int option \<Rightarrow> int option \<Rightarrow> int option \<Rightarrow> int \<times> int \<times> int" where
  "validate_dates db start_in end_in duration_in =
     (case start_in of
        Some s \<Rightarrow>
          (case end_in of
             Some e \<Rightarrow>
               if s \<le> e then (s, e, e - s)
               else (s, s + given_duration db duration_in, given_duration db duration_in)
           | None \<Rightarrow> (s, s + given_duration db duration_in, given_duration db duration_in))
      | None \<Rightarrow>
          (case end_in of
             Some e \<Rightarrow> (e - given_duration db duration_in, e, given_duration db duration_in)
           | None \<Rightarrow> (now db, now db + given_duration db duration_in,
                        given_duration db duration_in)))"

definition set_dates :: "task_id \<Rightarrow> int \<times> int \<times> int \<Rightarrow> db \<Rightarrow> db" where
  "set_dates self dates db =
     (case dates of (s, e, d) \<Rightarrow>
        update_task self (\<lambda>t. t\<lparr>start_col := s, end_col := e, duration_col := d\<rparr>) db)"

text \<open>
  The overridden \<^verbatim>\<open>start\<close> and \<^verbatim>\<open>end\<close> setters of \<^verbatim>\<open>Task\<close> and
  \<^verbatim>\<open>_expand_dates\<close>, which assigns to the \<^verbatim>\<open>start\<close> and \<^verbatim>\<open>end\<close> of the parent and so
  runs the setters of the parent:
  \<^verbatim>\<open>
  def _start_setter(self, start_in):
      self._start, self._end, self._duration = \
          self._validate_dates(start_in, self._end, self._duration)
      self._expand_dates(self.parent, self.start, self.end)

  def _end_setter(self, end_in):
      self._start, self._end, self._duration = \
          self._validate_dates(self.start, end_in, self.duration)
      self._expand_dates(self.parent, self.start, self.end)

  def _expand_dates(self, task, start, end):
      if task:
          if task.start > start:
              task.start = start
          if task.end < end:
              task.end = end
  \<close>
\<close>

fun start_setter :: "nat \<Rightarrow> task_id \<Rightarrow> int \<Rightarrow> db \<Rightarrow> db option"
  and end_setter :: "nat \<Rightarrow> task_id \<Rightarrow> int \<Rightarrow> db \<Rightarrow> db option"
  and expand_dates :: "nat \<Rightarrow> task_id option \<Rightarrow> int \<Rightarrow> int \<Rightarrow> db \<Rightarrow> db option" where
  "start_setter 0 self start_in db = None"
| "start_setter (Suc n) self start_in db =
     (let db1 = set_dates self
                  (validate_dates db (Some start_in) (Some (end_col (tasks db self)))
                     (Some (duration_col (tasks db self)))) db
      in expand_dates n (parent (tasks db1 self)) (start_col (tasks db1 self))
           (end_col (tasks db1 self)) db1)"
| "end_setter 0 self end_in db = None"
| "end_setter (Suc n) self end_in db =
     (let db1 = set_dates self
                  (validate_dates db (Some (start_col (tasks db self))) (Some end_in)
                     (Some (duration_col (tasks db self)))) db
      in expand_dates n (parent (tasks db1 self)) (start_col (tasks db1 self))
           (end_col (tasks db1 self)) db1)"
| "expand_dates n None start_in end_in db = Some db"
| "expand_dates 0 (Some task) start_in end_in db = None"
| "expand_dates (Suc n) (Some task) start_in end_in db =
     do {
       db1 \<leftarrow> (if start_col (tasks db task) > start_in then start_setter n task start_in db
               else Some db);
       (if end_col (tasks db1 task) < end_in then end_setter n task end_in db1 else Some db1)
     }"

text \<open>\<^verbatim>\<open>datetime.datetime.max\<close> and \<^verbatim>\<open>datetime.datetime.min\<close>, in seconds.\<close>

definition datetime_max :: int where
  "datetime_max = 253402300799"

definition datetime_min :: int where
  "datetime_min = - 62135596800"

text \<open>
  The listener of the \<^verbatim>\<open>remove\<close> event of \<^verbatim>\<open>Task.children\<close>:
  \<^verbatim>\<open>
  def update_task_date_values(task, removed_child, initiator):
      start = datetime.datetime.max
      end = datetime.datetime.min
      for child in task.children:
          if child is not removed_child:
              if child.start < start:
                  start = child.start
              if child.end > end:
                  end = child.end
      if start != datetime.datetime.max and end != datetime.datetime.min:
          task.start = start
          task.end = end
      else:
          # no child left
          # set it to now
          task.start = datetime.datetime.now()
          # this will also update end
  \<close>
\<close>

definition children_range :: "db \<Rightarrow> task_id \<Rightarrow> task_id list \<Rightarrow> int \<times> int" where
  "children_range db removed_child cs =
     foldl (\<lambda>(start_v, end_v) child.
              if child \<noteq> removed_child
              then (if start_col (tasks db child) < start_v then start_col (tasks db child)
                    else start_v,
                    if end_col (tasks db child) > end_v then end_col (tasks db child)
                    else end_v)
              else (start_v, end_v))
       (datetime_max, datetime_min) cs"

definition update_task_date_values :: "nat \<Rightarrow> task_id \<Rightarrow> task_id \<Rightarrow> db \<Rightarrow> db option" where
  "update_task_date_values n task removed_child db =
     (case children_range db removed_child (children (tasks db task)) of
        (start_v, end_v) \<Rightarrow>
          if start_v \<noteq> datetime_max \<and> end_v \<noteq> datetime_min
          then do { db1 \<leftarrow> start_setter n task start_v db; end_setter n task end_v db1 }
          else start_setter n task (now db) db)"

subsection \<open>Schedule timing and unit\<close>

text \<open>
  \<^verbatim>\<open>Task._reschedule\<close>: for a leaf whose unit is in the table, the dates are
  recomputed from the calculated duration under the schedule constraint, and the cache
  column takes \<^verbatim>\<open>self.schedule_seconds\<close>.
\<close>

definition reschedule :: "task_id \<Rightarrow> int \<Rightarrow> schedule_unit \<Rightarrow> db \<Rightarrow> db" where
  "reschedule self timing unit db =
     (if is_leaf db self then
        (case datetime_units_to_timedelta db unit of
           None \<Rightarrow> db
         | Some unit_length \<Rightarrow>
             (let calculated_duration = timing * unit_length;
                  t = tasks db self;
                  db1 = (if schedule_constraint t = CONSTRAIN_NONE
                            \<or> schedule_constraint t = CONSTRAIN_START
                         then set_dates self
                                (validate_dates db (Some (start_col t)) None
                                   (Some calculated_duration)) db
                         else if schedule_constraint t = CONSTRAIN_END
                         then set_dates self
                                (validate_dates db None (Some (end_col t))
                                   (Some calculated_duration)) db
                         else set_dates self
                                (validate_dates db (Some (start_col t)) (Some (end_col t))
                                   None) db)
              in update_task self
                   (\<lambda>t. t\<lparr>schedule_seconds_col := Some (leaf_schedule_seconds db1 self)\<rparr>)
                   db1))
      else db)"






subsection \<open>\<^verbatim>\<open>TimeLog._expand_task_schedule_timing\<close> and \<^verbatim>\<open>TimeLog._validate_task\<close>\<close>






subsection \<open>Cycles\<close>

text \<open>
  Modelled from the spec: \<^verbatim>\<open>check_circular_dependency\<close> (stalker/models/__init__.py)
  is not among the sources. The spec (4.4): before a new edge is committed in the
  parent graph or in the depends graph, the checker traverses the relation named by
  \<open>attr\<close> from \<open>entity\<close> and rejects with a cycle error when \<open>other_entity\<close> is
  reached. The traversal is bounded by a number of nested calls.
\<close>

fun check_each :: "(task_id \<Rightarrow> (error + unit) option) \<Rightarrow> task_id list \<Rightarrow> (error + unit) option" where
  "check_each f [] = Some (Inr ())"
| "check_each f (x # xs) = bind_result (f x) (\<lambda>u. check_each f xs)"

primrec check_circular_dependency ::
  "nat \<Rightarrow> (task_id \<Rightarrow> task_id list) \<Rightarrow> task_id \<Rightarrow> task_id \<Rightarrow> (error + unit) option" where
  "check_circular_dependency 0 = (\<lambda>attr entity other_entity. None)"
| "check_circular_dependency (Suc n) = (\<lambda>attr entity other_entity.
     if entity = other_entity then Some (Inl CircularDependencyError)
     else check_each (\<lambda>dependent. check_circular_dependency n attr dependent other_entity)
            (attr entity))"

subsection \<open>\<^verbatim>\<open>Task._validate_depends\<close>\<close>




subsection \<open>\<^verbatim>\<open>Task._validate_children\<close> and \<^verbatim>\<open>Task._validate_parent\<close>\<close>

text \<open>
  \<^verbatim>\<open>
  def _validate_children(self, key, child):
      self.resources = []
      if self.is_leaf:
          old_schedule_seconds = self.schedule_seconds
          self._total_logged_seconds = child.total_logged_seconds
          self._schedule_seconds = child.schedule_seconds
          if self.parent:
              self.parent._schedule_seconds -= old_schedule_seconds
              self.parent._schedule_seconds += child.schedule_seconds
          self._start = datetime.datetime.max
          self._end = datetime.datetime.min
      self._expand_dates(self, child.start, child.end)
      return child
  \<close>
  The resources of a task are not part of the model. The two augmented assignments
  work on the column of the parent itself, not through the setter; on a column that is
  \<^verbatim>\<open>None\<close> they raise \<^verbatim>\<open>TypeError\<close>.
\<close>

definition replace_in_parent :: "nat \<Rightarrow> task_id \<Rightarrow> task_id \<Rightarrow> int \<Rightarrow> db \<Rightarrow> (error + db) option" where
  "replace_in_parent n self child old_schedule_seconds db =
     (case parent (tasks db self) of
        None \<Rightarrow> Some (Inr db)
      | Some p \<Rightarrow>
          (case schedule_seconds_col (tasks db p) of
             None \<Rightarrow> Some (Inl TypeError)
           | Some v \<Rightarrow>
               (let db1 = update_task p
                      (\<lambda>t. t\<lparr>schedule_seconds_col := Some (v - old_schedule_seconds)\<rparr>) db
                in case schedule_seconds_col (tasks db1 p) of
                     None \<Rightarrow> Some (Inl TypeError)
                   | Some v2 \<Rightarrow>
                       bind_result (returns (schedule_seconds_getter n child db1)) (\<lambda>r.
                         Some (Inr (update_task p
                           (\<lambda>t. t\<lparr>schedule_seconds_col := Some (v2 + fst r)\<rparr>) (snd r)))))))"

definition become_container :: "nat \<Rightarrow> task_id \<Rightarrow> task_id \<Rightarrow> db \<Rightarrow> (error + db) option" where
  "become_container n self child db =
     bind_result (returns (schedule_seconds_getter n self db)) (\<lambda>r1.
     bind_result (returns (total_logged_seconds_getter n child (snd r1))) (\<lambda>r2.
     bind_result (returns (schedule_seconds_getter n child
         (update_task self (\<lambda>t. t\<lparr>total_logged_seconds_col := Some (fst r2)\<rparr>) (snd r2))))
       (\<lambda>r3.
     bind_result (replace_in_parent n self child (fst r1)
         (update_task self (\<lambda>t. t\<lparr>schedule_seconds_col := Some (fst r3)\<rparr>) (snd r3)))
       (\<lambda>db1.
     Some (Inr (update_task self
       (\<lambda>t. t\<lparr>start_col := datetime_max, end_col := datetime_min\<rparr>) db1))))))"

definition validate_children :: "nat \<Rightarrow> task_id \<Rightarrow> task_id \<Rightarrow> db \<Rightarrow> (error + db) option" where
  "validate_children n self child db =
     bind_result (if is_leaf db self then become_container n self child db else Some (Inr db))
       (\<lambda>db1. returns (expand_dates n (Some self) (start_col (tasks db1 child))
                         (end_col (tasks db1 child)) db1))"

text \<open>
  \<^verbatim>\<open>
  def _validate_parent(self, key, parent):
      if parent is not None:
          if not isinstance(parent, Task):
              raise TypeError(...)
          check_circular_dependency(self, parent, 'children')
          check_circular_dependency(self, parent, 'depends')
      old_parent = self.parent
      new_parent = parent
      if old_parent:
          old_parent.schedule_seconds -= self.schedule_seconds
          old_parent.total_logged_seconds -= self.total_logged_seconds
      if new_parent:
          if new_parent.is_leaf:
              new_parent.schedule_seconds = self.schedule_seconds
              new_parent.total_logged_seconds = self.total_logged_seconds
          else:
              new_parent.schedule_seconds += self.schedule_seconds
              new_parent.total_logged_seconds += self.total_logged_seconds
      return parent
  \<close>
\<close>

datatype parent_arg = ParentNone | ParentNotTask | ParentTask task_id

definition leave_old_parent :: "nat \<Rightarrow> task_id \<Rightarrow> db \<Rightarrow> db option" where
  "leave_old_parent n self db =
     (case parent (tasks db self) of
        None \<Rightarrow> Some db
      | Some old_parent \<Rightarrow>
          do {
            (a, db1) \<leftarrow> schedule_seconds_getter n old_parent db;
            (b, db2) \<leftarrow> schedule_seconds_getter n self db1;
            db3 \<leftarrow> schedule_seconds_setter n old_parent (a - b) db2;
            (c, db4) \<leftarrow> total_logged_seconds_getter n old_parent db3;
            (d, db5) \<leftarrow> total_logged_seconds_getter n self db4;
            total_logged_seconds_setter n old_parent (c - d) db5
          })"

definition join_new_parent :: "nat \<Rightarrow> task_id \<Rightarrow> task_id \<Rightarrow> db \<Rightarrow> db option" where
  "join_new_parent n self new_parent db =
     (if is_leaf db new_parent then
        do {
          (b, db1) \<leftarrow> schedule_seconds_getter n self db;
          db2 \<leftarrow> schedule_seconds_setter n new_parent b db1;
          (d, db3) \<leftarrow> total_logged_seconds_getter n self db2;
          total_logged_seconds_setter n new_parent d db3
        }
      else
        do {
          (a, db1) \<leftarrow> schedule_seconds_getter n new_parent db;
          (b, db2) \<leftarrow> schedule_seconds_getter n self db1;
          db3 \<leftarrow> schedule_seconds_setter n new_parent (a + b) db2;
          (c, db4) \<leftarrow> total_logged_seconds_getter n new_parent db3;
          (d, db5) \<leftarrow> total_logged_seconds_getter n self db4;
          total_logged_seconds_setter n new_parent (c + d) db5
        })"

definition validate_parent :: "nat \<Rightarrow> task_id \<Rightarrow> parent_arg \<Rightarrow> db \<Rightarrow> (error + db) option" where
  "validate_parent n self parent_in db =
     bind_result
       (case parent_in of
          ParentNone \<Rightarrow> Some (Inr ())
        | ParentNotTask \<Rightarrow> Some (Inl TypeError)
        | ParentTask p \<Rightarrow>
            bind_result (check_circular_dependency n (\<lambda>t. children (tasks db t)) self p) (\<lambda>u.
              check_circular_dependency n (\<lambda>t. depends (tasks db t)) self p))
       (\<lambda>u. bind_result (returns (leave_old_parent n self db)) (\<lambda>db1.
          case parent_in of
            ParentTask new_parent \<Rightarrow> returns (join_new_parent n self new_parent db1)
          | _ \<Rightarrow> Some (Inr db1)))"

text \<open>
  The assignment \<^verbatim>\<open>task.parent = p\<close>, with what the relationship between
  \<^verbatim>\<open>parent\<close> and \<^verbatim>\<open>children\<close> makes of it: \<^verbatim>\<open>_validate_parent\<close> runs; the task
  leaves the \<^verbatim>\<open>children\<close> of its old parent, which runs the \<^verbatim>\<open>remove\<close> listener
  \<^verbatim>\<open>update_task_date_values\<close>; the task is appended to the \<^verbatim>\<open>children\<close> of the new
  parent, which runs \<^verbatim>\<open>_validate_children\<close> before the list changes; then the column
  takes the new parent.
\<close>

definition new_parent_of :: "parent_arg \<Rightarrow> task_id option" where
  "new_parent_of parent_in = (case parent_in of ParentTask p \<Rightarrow> Some p | _ \<Rightarrow> None)"

definition leave_children :: "nat \<Rightarrow> task_id \<Rightarrow> db \<Rightarrow> db option" where
  "leave_children n self db =
     (case parent (tasks db self) of
        None \<Rightarrow> Some db
      | Some old_parent \<Rightarrow>
          do {
            db1 \<leftarrow> update_task_date_values n old_parent self db;
            Some (update_task old_parent (\<lambda>t. t\<lparr>children := removeAll self (children t)\<rparr>) db1)
          })"

definition join_children :: "nat \<Rightarrow> task_id \<Rightarrow> task_id option \<Rightarrow> db \<Rightarrow> (error + db) option" where
  "join_children n self new_parent db =
     (case new_parent of
        None \<Rightarrow> Some (Inr db)
      | Some p \<Rightarrow>
          bind_result (validate_children n p self db) (\<lambda>db1.
            Some (Inr (update_task p (\<lambda>t. t\<lparr>children := children t @ [self]\<rparr>) db1))))"

definition set_parent :: "nat \<Rightarrow> task_id \<Rightarrow> parent_arg \<Rightarrow> db \<Rightarrow> (error + db) option" where
  "set_parent n self parent_in db =
     bind_result (validate_parent n self parent_in db) (\<lambda>db1.
     bind_result (returns (leave_children n self db1)) (\<lambda>db2.
     bind_result (join_children n self (new_parent_of parent_in) db2) (\<lambda>db3.
     Some (Inr (update_task self (\<lambda>t. t\<lparr>parent := new_parent_of parent_in\<rparr>) db3)))))"

subsection \<open>Listeners of \<^verbatim>\<open>TimeLog._start\<close> and \<^verbatim>\<open>TimeLog._end\<close>\<close>

text \<open>
  \<^verbatim>\<open>
  def __update_total_logged_seconds__(tlog, new_duration, old_duration):
      if tlog.task:
          parent = tlog.task.parent
          if parent:
              old_total_seconds = old_duration.days * 86400 + old_duration.seconds
              new_total_seconds = new_duration.days * 86400 + new_duration.seconds
              parent.total_logged_seconds = \
                  parent.total_logged_seconds - old_total_seconds + new_total_seconds

  def update_time_log_task_parents_for_start(tlog, new_start, old_start, initiator):
      if tlog.end and old_start and new_start:
          old_duration = tlog.end - old_start
          new_duration = tlog.end - new_start
          __update_total_logged_seconds__(tlog, new_duration, old_duration)

  def update_time_log_task_parents_for_end(tlog, new_end, old_end, initiator):
      if tlog.start and old_end and new_end:
          old_duration = old_end - tlog.start
          new_duration = new_end - tlog.start
          __update_total_logged_seconds__(tlog, new_duration, old_duration)
  \<close>
  An old or new value that is not set yet is \<open>None\<close>. The two listeners are all
  that the module attaches to the two columns: the validators of \<^verbatim>\<open>TimeLog\<close> are
  those of \<^verbatim>\<open>task\<close> and of \<^verbatim>\<open>resource\<close>.
\<close>

definition update_total_logged_seconds :: "nat \<Rightarrow> time_log \<Rightarrow> int \<Rightarrow> int \<Rightarrow> db \<Rightarrow> db option" where
  "update_total_logged_seconds n tlog new_duration old_duration db =
     (case tl_task tlog of
        None \<Rightarrow> Some db
      | Some task \<Rightarrow>
          (case parent (tasks db task) of
             None \<Rightarrow> Some db
           | Some p \<Rightarrow>
               (let old_total_seconds =
                      timedelta_days old_duration * 86400 + timedelta_seconds old_duration;
                    new_total_seconds =
                      timedelta_days new_duration * 86400 + timedelta_seconds new_duration
                in do {
                     (v, db1) \<leftarrow> total_logged_seconds_getter n p db;
                     total_logged_seconds_setter n p
                       (v - old_total_seconds + new_total_seconds) db1
                   })))"

definition update_time_log_task_parents_for_start ::
  "nat \<Rightarrow> time_log \<Rightarrow> int option \<Rightarrow> int option \<Rightarrow> db \<Rightarrow> db option" where
  "update_time_log_task_parents_for_start n tlog new_start old_start db =
     (case (old_start, new_start) of
        (Some old_s, Some new_s) \<Rightarrow>
          update_total_logged_seconds n tlog (tl_end tlog - new_s) (tl_end tlog - old_s) db
      | _ \<Rightarrow> Some db)"

definition update_time_log_task_parents_for_end ::
  "nat \<Rightarrow> time_log \<Rightarrow> int option \<Rightarrow> int option \<Rightarrow> db \<Rightarrow> db option" where
  "update_time_log_task_parents_for_end n tlog new_end old_end db =
     (case (old_end, new_end) of
        (Some old_e, Some new_e) \<Rightarrow>
          update_total_logged_seconds n tlog (new_e - tl_start tlog) (old_e - tl_start tlog) db
      | _ \<Rightarrow> Some db)"

subsection \<open>What the caches stand for\<close>

text \<open>
  \<open>strip_caches\<close> forgets the two cache columns of every task: two stores with the
  same \<open>strip_caches\<close> differ in their caches only.
\<close>

definition strip_caches :: "db \<Rightarrow> db" where
  "strip_caches db =
     db\<lparr>tasks := (\<lambda>t. (tasks db t)\<lparr>schedule_seconds_col := None,
                                      total_logged_seconds_col := None\<rparr>)\<rparr>"

text \<open>
  The sums that \<^verbatim>\<open>update_schedule_info\<close> stores, read off the tree without any
  cache: a leaf counts for its own schedule and its own time logs, a container for the
  sum over its children, \<open>n\<close> levels deep.
\<close>

primrec sum_schedule_seconds :: "nat \<Rightarrow> db \<Rightarrow> task_id \<Rightarrow> int" where
  "sum_schedule_seconds 0 db t = 0"
| "sum_schedule_seconds (Suc n) db t =
     (if is_container db t
      then sum_list (map (\<lambda>c. if is_container db c then sum_schedule_seconds n db c
                               else leaf_schedule_seconds db c) (children (tasks db t)))
      else leaf_schedule_seconds db t)"

primrec sum_total_logged_seconds :: "nat \<Rightarrow> db \<Rightarrow> task_id \<Rightarrow> int" where
  "sum_total_logged_seconds 0 db t = 0"
| "sum_total_logged_seconds (Suc n) db t =
     (if is_container db t
      then sum_list (map (\<lambda>c. if is_container db c then sum_total_logged_seconds n db c
                               else leaf_total_logged_seconds db c) (children (tasks db t)))
      else leaf_total_logged_seconds db t)"

text \<open>
  The children lists form a forest of finite depth when every child has a smaller rank
  than its parent.
\<close>

definition ranked :: "db \<Rightarrow> (task_id \<Rightarrow> nat) \<Rightarrow> bool" where
  "ranked db r = (\<forall>t. \<forall>c \<in> set (children (tasks db t)). r c < r t)"

text \<open>
  What a bounded \<^verbatim>\<open>update_schedule_info\<close> does on the tasks \<open>T\<close>, on every store that
  differs from \<open>db0\<close> in its caches only: it returns, changes caches only, and leaves
  \<open>S t\<close> and \<open>L t\<close> in the caches of the task it was called on.
\<close>

definition updates_to ::
  "(task_id \<Rightarrow> db \<Rightarrow> db option) \<Rightarrow> db \<Rightarrow> (task_id \<Rightarrow> int) \<Rightarrow> (task_id \<Rightarrow> int)
     \<Rightarrow> (task_id \<Rightarrow> bool) \<Rightarrow> bool" where
  "updates_to upd db0 S L T =
     (\<forall>t db. T t \<longrightarrow> strip_caches db = strip_caches db0 \<longrightarrow>
        (\<exists>db'. upd t db = Some db' \<and> strip_caches db' = strip_caches db0
           \<and> schedule_seconds_col (tasks db' t) = Some (S t)
           \<and> total_logged_seconds_col (tasks db' t) = Some (L t)))"

definition child_schedule :: "db \<Rightarrow> (task_id \<Rightarrow> int) \<Rightarrow> task_id \<Rightarrow> int" where
  "child_schedule db0 S c = (if is_container db0 c then S c else leaf_schedule_seconds db0 c)"

definition child_logged :: "db \<Rightarrow> (task_id \<Rightarrow> int) \<Rightarrow> task_id \<Rightarrow> int" where
  "child_logged db0 L c = (if is_container db0 c then L c else leaf_total_logged_seconds db0 c)"

definition cached :: "db \<Rightarrow> db \<Rightarrow> (task_id \<Rightarrow> int) \<Rightarrow> (task_id \<Rightarrow> int) \<Rightarrow> task_id \<Rightarrow> bool" where
  "cached db0 db S L c = (is_container db0 c \<longrightarrow>
      schedule_seconds_col (tasks db c) = Some (S c)
    \<and> total_logged_seconds_col (tasks db c) = Some (L c))"

subsection \<open>Example stores\<close>

text \<open>
  A task as \<^verbatim>\<open>Task.__init__\<close> leaves it by default (\<^verbatim>\<open>schedule_timing=1.0\<close>,
  \<^verbatim>\<open>schedule_unit='h'\<close>, \<^verbatim>\<open>schedule_constraint=0\<close>, no parent, no children, no
  dependencies, no time logs, empty caches), a configuration with calendar units
  (a month of 30 days, a year of 365 days) and the store that holds only such tasks.
\<close>

definition new_task :: task where
  "new_task =
     \<lparr>parent = None, children = [], depends = [], time_logs = [],
      schedule_timing = 1, schedule_unit = Hour, schedule_model = Effort,
      schedule_constraint = CONSTRAIN_NONE,
      schedule_seconds_col = None, total_logged_seconds_col = None,
      start_col = 0, end_col = 3600, duration_col = 3600\<rparr>"

fun calendar_seconds :: "schedule_unit \<Rightarrow> int" where
  "calendar_seconds Minute = 60"
| "calendar_seconds Hour = 3600"
| "calendar_seconds Day = 86400"
| "calendar_seconds Week = 604800"
| "calendar_seconds Month = 2592000"
| "calendar_seconds Year = 31536000"

definition empty_db :: db where
  "empty_db =
     \<lparr>tasks = (\<lambda>t. new_task), unit_seconds = (\<lambda>model. calendar_seconds),
      datetime_units_to_timedelta = (\<lambda>unit. Some (calendar_seconds unit)),
      timing_resolution = 3600, now = 0\<rparr>"

text \<open>
  A container (task 1) with two leaves: task 2 of two hours and task 3 of one hour
  with a time log of half an hour.
\<close>

definition family_db :: db where
  "family_db =
     empty_db\<lparr>tasks := (\<lambda>t. new_task)
       (1 := new_task\<lparr>children := [2, 3]\<rparr>,
        2 := new_task\<lparr>parent := Some 1, schedule_timing := 2\<rparr>,
        3 := new_task\<lparr>parent := Some 1,
               time_logs := [\<lparr>tl_name = ''log'', tl_task = Some 3, tl_resource = Some 1,
                               tl_start = 0, tl_end = 1800\<rparr>]\<rparr>)\<rparr>"

text \<open>
  What can be read after an operation that returned: a column of a task, its children,
  its dependencies, and the value of \<^verbatim>\<open>Task.schedule_seconds\<close> and of
  \<^verbatim>\<open>Task.total_logged_seconds\<close>.
\<close>

definition after :: "(error + db) option \<Rightarrow> (db \<Rightarrow> 'a) \<Rightarrow> 'a option" where
  "after r f = (case r of Some (Inr db) \<Rightarrow> Some (f db) | _ \<Rightarrow> None)"

definition read_after :: "(error + db) option \<Rightarrow> (db \<Rightarrow> (int \<times> db) option) \<Rightarrow> int option" where
  "read_after r getter = (case r of Some (Inr db) \<Rightarrow> map_option fst (getter db) | _ \<Rightarrow> None)"

text \<open>
  A chain of three tasks, 1 above 2 above 3, where 3 is a leaf of one hour and the
  caches of 1 and 2 hold its 3600 seconds, and a task 4 of two hours without a parent.
\<close>

definition chain_db :: db where
  "chain_db =
     empty_db\<lparr>tasks := (\<lambda>t. new_task)
       (1 := new_task\<lparr>children := [2], schedule_seconds_col := Some 3600,
               total_logged_seconds_col := Some 0\<rparr>,
        2 := new_task\<lparr>parent := Some 1, children := [3], schedule_seconds_col := Some 3600,
               total_logged_seconds_col := Some 0\<rparr>,
        3 := new_task\<lparr>parent := Some 2\<rparr>,
        4 := new_task\<lparr>schedule_timing := 2\<rparr>)\<rparr>"



text \<open>
  \<open>strip_dates\<close> forgets the three date columns of every task, and a store is
  \<open>rooted\<close> by a depth when every parent is less deep than its child: the parent
  links then lead to a root in finitely many steps.
\<close>

definition strip_dates :: "db \<Rightarrow> db" where
  "strip_dates db =
     db\<lparr>tasks := (\<lambda>t. (tasks db t)\<lparr>start_col := 0, end_col := 0, duration_col := 0\<rparr>)\<rparr>"

definition rooted :: "db \<Rightarrow> (task_id \<Rightarrow> nat) \<Rightarrow> bool" where
  "rooted db d = (\<forall>u q. parent (tasks db u) = Some q \<longrightarrow> d q < d u)"

text \<open>
  What a date setter does to a store, for the task \<open>t\<close> it is called on: the dates of
  \<open>t\<close> are the ones given, only dates change, and no task at the depth of \<open>t\<close> or
  below it, other than \<open>t\<close>, changes at all.
\<close>

definition sets_dates :: "(task_id \<Rightarrow> nat) \<Rightarrow> task_id \<Rightarrow> db \<Rightarrow> db option \<Rightarrow> int \<times> int \<times> int \<Rightarrow> bool" where
  "sets_dates d t db r dates =
     (\<exists>db'. r = Some db' \<and> strip_dates db' = strip_dates db
        \<and> (\<forall>u. u \<noteq> t \<and> d t \<le> d u \<longrightarrow> tasks db' u = tasks db u)
        \<and> tasks db' t = tasks (set_dates t dates db) t)"

definition expands_dates :: "(task_id \<Rightarrow> nat) \<Rightarrow> task_id \<Rightarrow> db \<Rightarrow> db option \<Rightarrow> bool" where
  "expands_dates d p db r =
     (\<exists>db'. r = Some db' \<and> strip_dates db' = strip_dates db
        \<and> (\<forall>u. u \<noteq> p \<and> d p \<le> d u \<longrightarrow> tasks db' u = tasks db u))"

text \<open>
  A container (task 1) from 0 to 3600 with the single child task 2, at the time 1000.
\<close>

definition single_child_db :: db where
  "single_child_db =
     empty_db\<lparr>tasks := (\<lambda>t. new_task)
       (1 := new_task\<lparr>children := [2], schedule_seconds_col := Some 3600,
               total_logged_seconds_col := Some 0\<rparr>,
        2 := new_task\<lparr>parent := Some 1\<rparr>),
       now := 1000\<rparr>"

text \<open>
  The chain of ancestors of a task, nearest first, as the loop of \<^verbatim>\<open>Task.parents\<close>
  collects it (\<^verbatim>\<open>task = self.parent; while task: parents.append(task); task =
  task.parent\<close>), at most \<open>n\<close> of them.
\<close>

primrec ancestors :: "nat \<Rightarrow> db \<Rightarrow> task_id \<Rightarrow> task_id list" where
  "ancestors 0 db t = []"
| "ancestors (Suc n) db t =
     (case parent (tasks db t) of None \<Rightarrow> [] | Some p \<Rightarrow> p # ancestors n db p)"


definition has_total_logged_seconds :: "db \<Rightarrow> task_id set \<Rightarrow> bool" where
  "has_total_logged_seconds db A =
     (\<forall>a \<in> A. is_container db a
        \<and> (\<exists>c. total_logged_seconds_col (tasks db a) = Some c))"

text \<open>
  Adding \<open>x\<close> to a column that holds a number.
\<close>

definition plus_col :: "int \<Rightarrow> int option \<Rightarrow> int option" where
  "plus_col x col = map_option (\<lambda>c. c + x) col"

text \<open>
  An operation with the result \<open>r\<close> adds \<open>x\<close> to the \<^verbatim>\<open>_total_logged_seconds\<close> of
  the tasks \<open>A\<close>: it returns, and the store it returns differs from \<open>db\<close> in those
  columns only.
\<close>

definition adds_total_logged_seconds :: "db \<Rightarrow> task_id set \<Rightarrow> int \<Rightarrow> db option \<Rightarrow> bool" where
  "adds_total_logged_seconds db A x r =
     (\<exists>db'. r = Some db' \<and> strip_caches db' = strip_caches db
        \<and> (\<forall>u. schedule_seconds_col (tasks db' u) = schedule_seconds_col (tasks db u))
        \<and> (\<forall>u. total_logged_seconds_col (tasks db' u) =
              (if u \<in> A then plus_col x (total_logged_seconds_col (tasks db u))
               else total_logged_seconds_col (tasks db u))))"


text \<open>
  A chain of three tasks, 1 above 2 above 3, where the leaf 3 has a time log of the
  resource 1 from 1800 to 2400 and the caches of 1 and 2 hold its 600 seconds; the
  resource has another time log, of another task, from 600 to 1200.
\<close>

definition logged_db :: db where
  "logged_db =
     empty_db\<lparr>tasks := (\<lambda>t. new_task)
       (1 := new_task\<lparr>children := [2], schedule_seconds_col := Some 3600,
               total_logged_seconds_col := Some 600\<rparr>,
        2 := new_task\<lparr>parent := Some 1, children := [3], schedule_seconds_col := Some 3600,
               total_logged_seconds_col := Some 600\<rparr>,
        3 := new_task\<lparr>parent := Some 2,
               time_logs := [\<lparr>tl_name = ''log'', tl_task = Some 3, tl_resource = Some 1,
                               tl_start = 1800, tl_end = 2400\<rparr>]\<rparr>)\<rparr>"



text \<open>
  \<open>strip_schedule\<close> forgets the schedule timing, the schedule unit, the caches and the
  dates of every task: two stores with the same \<open>strip_schedule\<close> have the same tree,
  the same time logs and the same configuration.
\<close>

definition strip_schedule :: "db \<Rightarrow> db" where
  "strip_schedule db =
     db\<lparr>tasks := (\<lambda>t. (tasks db t)\<lparr>schedule_timing := 0, schedule_unit := Minute,
                         schedule_seconds_col := None, total_logged_seconds_col := None,
                         start_col := 0, end_col := 0, duration_col := 0\<rparr>)\<rparr>"


section \<open>Properties\<close>

subsection \<open>Priority\<close>

text \<open>
  C10: setting the priority never raises, and a value that cannot be converted to an
  integer is replaced by the default priority. The \<^verbatim>\<open>try\<close> statement is there to
  fall back to the default, but \<^verbatim>\<open>int(float('inf'))\<close> raises \<^verbatim>\<open>OverflowError\<close>,
  which the \<^verbatim>\<open>except\<close> clause does not name: for an infinite float the exception
  leaves the validator, whatever the default and the platform.
\<close>

theorem validate_priority_infinity_raises:
  "validate_priority maxint task_priority (PyFloat (Infinity negative)) = Inl OverflowError"
  by (simp add: validate_priority_def try_int_def)

text \<open>
  A second input on which the claim and the code differ: a number beyond
  \<^verbatim>\<open>sys.maxint\<close> is converted to a \<^verbatim>\<open>long\<close>, which is not an instance of \<^verbatim>\<open>int\<close>,
  so the default priority is stored instead of 1000.
\<close>

lemma validate_priority_long_stores_default:
  "validate_priority (2 ^ 63 - 1) 500 (PyLong (2 ^ 64)) = Inr 500"
  by (simp add: validate_priority_def try_int_def int_or_long_def)

text \<open>
  On every other input the validator returns, and what it returns lies between 0 and
  1000.
\<close>

lemma py_int_errors:
  "py_int maxint v = Inl e \<Longrightarrow>
     e = TypeError \<or> e = ValueError
     \<or> (e = OverflowError \<and> (\<exists>negative. v = PyFloat (Infinity negative)))"
proof (cases v)
  case (PyFloat f)
  assume "py_int maxint v = Inl e"
  with PyFloat show ?thesis by (cases f) auto
next
  case (PyStr s)
  assume "py_int maxint v = Inl e"
  with PyStr show ?thesis by (auto split: option.splits)
qed auto

lemma validate_priority_range:
  "validate_priority maxint task_priority v = Inr p \<Longrightarrow> 0 \<le> p \<and> p \<le> 1000"
  by (auto simp: validate_priority_def try_int_def Let_def split: sum.splits if_splits)

lemma validate_priority_raises_overflow_only:
  assumes "validate_priority maxint task_priority v = Inl e"
  shows "e = OverflowError \<and> (\<exists>negative. v = PyFloat (Infinity negative))"
proof -
  from assms have pe: "py_int maxint v = Inl e" and "e \<noteq> ValueError" "e \<noteq> TypeError"
    by (auto simp: validate_priority_def try_int_def Let_def split: sum.splits if_splits)
  with py_int_errors [OF pe] show ?thesis by simp
qed

subsection \<open>Overbooking\<close>

lemma check_overbooking_Inr:
  "(check_overbooking r self logs = Inr ()) =
     (\<forall>time_log \<in> set logs. time_log \<noteq> self \<longrightarrow> \<not> overbooked self time_log)"
  by (induction logs) auto

lemma check_overbooking_Inl:
  "check_overbooking r self logs = Inl e \<Longrightarrow>
     \<exists>time_log \<in> set logs. time_log \<noteq> self \<and> overbooked self time_log
        \<and> e = OverBookedError r self time_log"
  by (induction logs) (auto split: if_splits)

text \<open>
  C3: a time log is rejected if and only if another time log of the resource shares
  its start, shares its end, or one of the two intervals has a boundary strictly
  inside the other. The code tests only the boundaries of the new time log against the
  existing one: a new time log that strictly contains an existing one is accepted.
  Here the resource is booked from 10 to 20 and the time log from 5 to 25 passes.
\<close>

theorem validate_resource_accepts_containing_log:
  "validate_resource
     \<lparr>tl_name = ''new'', tl_task = None, tl_resource = None, tl_start = 5, tl_end = 25\<rparr>
     (ResourceUser \<lparr>user_ident = 1, user_time_logs =
        [\<lparr>tl_name = ''old'', tl_task = Some 7, tl_resource = Some 1,
          tl_start = 10, tl_end = 20\<rparr>]\<rparr>)
   = Inr \<lparr>user_ident = 1, user_time_logs =
        [\<lparr>tl_name = ''old'', tl_task = Some 7, tl_resource = Some 1,
          tl_start = 10, tl_end = 20\<rparr>]\<rparr>"
  by (simp add: validate_resource_def overbooked_def)

text \<open>
  C4, as stated: a time log whose start equals the end of an existing time log of the
  resource is rejected. The comparisons are strict: the resource is booked from 10 to
  20 and the time log from 20 to 30 passes.
\<close>

theorem validate_resource_accepts_touching_log:
  "validate_resource
     \<lparr>tl_name = ''new'', tl_task = None, tl_resource = None, tl_start = 20, tl_end = 30\<rparr>
     (ResourceUser \<lparr>user_ident = 1, user_time_logs =
        [\<lparr>tl_name = ''old'', tl_task = Some 7, tl_resource = Some 1,
          tl_start = 10, tl_end = 20\<rparr>]\<rparr>)
   = Inr \<lparr>user_ident = 1, user_time_logs =
        [\<lparr>tl_name = ''old'', tl_task = Some 7, tl_resource = Some 1,
          tl_start = 10, tl_end = 20\<rparr>]\<rparr>"
  by (simp add: validate_resource_def overbooked_def)

text \<open>
  C4, amended: touching endpoints do not count as overlap. For a fixed resource, a
  time log is rejected with \<^verbatim>\<open>OverBookedError\<close>, naming the new time log and a time
  log of the resource, when another time log of the resource has the same start or the
  same end or contains the start or the end of the new one strictly inside its
  interval; every rejection names the new time log and another time log of the
  resource of which a boundary equals or lies strictly inside the interval of the
  other one of the two. A time log of positive duration is accepted when every other
  time log of the resource has a positive duration and ends no later than the new one
  starts or starts no earlier than the new one ends: so is one that starts where
  another one ends, or ends where another one starts.
\<close>

theorem validate_resource_strict_overlap:
  "((\<exists>time_log \<in> set (user_time_logs u). time_log \<noteq> self
        \<and> (tl_start time_log = tl_start self \<or> tl_end time_log = tl_end self
           \<or> (tl_start time_log < tl_end self \<and> tl_end self < tl_end time_log)
           \<or> (tl_start time_log < tl_start self \<and> tl_start self < tl_end time_log)))
     \<longrightarrow> (\<exists>time_log \<in> set (user_time_logs u). time_log \<noteq> self
            \<and> validate_resource self (ResourceUser u)
                = Inl (OverBookedError (user_ident u) self time_log)))
   \<and> (\<forall>e. validate_resource self (ResourceUser u) = Inl e \<longrightarrow>
        (\<exists>time_log \<in> set (user_time_logs u). time_log \<noteq> self
           \<and> e = OverBookedError (user_ident u) self time_log
           \<and> (overbooked self time_log \<or> overbooked time_log self)))
   \<and> (tl_start self < tl_end self
        \<and> (\<forall>time_log \<in> set (user_time_logs u). time_log \<noteq> self \<longrightarrow>
              tl_start time_log < tl_end time_log
            \<and> (tl_end time_log \<le> tl_start self \<or> tl_end self \<le> tl_start time_log))
        \<longrightarrow> validate_resource self (ResourceUser u) = Inr u)"
proof (intro conjI allI impI)
  assume "\<exists>time_log \<in> set (user_time_logs u). time_log \<noteq> self
        \<and> (tl_start time_log = tl_start self \<or> tl_end time_log = tl_end self
           \<or> (tl_start time_log < tl_end self \<and> tl_end self < tl_end time_log)
           \<or> (tl_start time_log < tl_start self \<and> tl_start self < tl_end time_log))"
  then have "\<not> (\<forall>time_log \<in> set (user_time_logs u). time_log \<noteq> self \<longrightarrow>
                  \<not> overbooked self time_log)"
    unfolding overbooked_def by blast
  then have "check_overbooking (user_ident u) self (user_time_logs u) \<noteq> Inr ()"
    unfolding check_overbooking_Inr .
  then obtain e where e: "check_overbooking (user_ident u) self (user_time_logs u) = Inl e"
    by (cases "check_overbooking (user_ident u) self (user_time_logs u)") auto
  from check_overbooking_Inl [OF e] obtain time_log where
    "time_log \<in> set (user_time_logs u)" "time_log \<noteq> self"
    "e = OverBookedError (user_ident u) self time_log"
    by blast
  moreover from e have "validate_resource self (ResourceUser u) = Inl e"
    by (simp add: validate_resource_def)
  ultimately show "\<exists>time_log \<in> set (user_time_logs u). time_log \<noteq> self
            \<and> validate_resource self (ResourceUser u)
                = Inl (OverBookedError (user_ident u) self time_log)"
    by blast
next
  fix e assume "validate_resource self (ResourceUser u) = Inl e"
  then have "check_overbooking (user_ident u) self (user_time_logs u) = Inl e"
    by (simp add: validate_resource_def split: sum.splits)
  from check_overbooking_Inl [OF this]
  show "\<exists>time_log \<in> set (user_time_logs u). time_log \<noteq> self
           \<and> e = OverBookedError (user_ident u) self time_log
           \<and> (overbooked self time_log \<or> overbooked time_log self)"
    by blast
next
  assume a: "tl_start self < tl_end self
        \<and> (\<forall>time_log \<in> set (user_time_logs u). time_log \<noteq> self \<longrightarrow>
              tl_start time_log < tl_end time_log
            \<and> (tl_end time_log \<le> tl_start self \<or> tl_end self \<le> tl_start time_log))"
  have "\<forall>time_log \<in> set (user_time_logs u). time_log \<noteq> self \<longrightarrow>
          \<not> overbooked self time_log"
  proof (intro ballI impI)
    fix time_log :: time_log
    assume "time_log \<in> set (user_time_logs u)" "time_log \<noteq> self"
    with a have "tl_start self < tl_end self" "tl_start time_log < tl_end time_log"
      "tl_end time_log \<le> tl_start self \<or> tl_end self \<le> tl_start time_log"
      by blast+
    then show "\<not> overbooked self time_log" by (auto simp: overbooked_def)
  qed
  then have "check_overbooking (user_ident u) self (user_time_logs u) = Inr ()"
    unfolding check_overbooking_Inr .
  then show "validate_resource self (ResourceUser u) = Inr u"
    by (simp add: validate_resource_def)
qed

theorem validate_resource_strict_overlap_witness:
  "validate_resource
     \<lparr>tl_name = ''new'', tl_task = None, tl_resource = None, tl_start = 20, tl_end = 30\<rparr>
     (ResourceUser \<lparr>user_ident = 1, user_time_logs =
        [\<lparr>tl_name = ''old'', tl_task = Some 7, tl_resource = Some 1,
          tl_start = 10, tl_end = 20\<rparr>]\<rparr>)
   = Inr \<lparr>user_ident = 1, user_time_logs =
        [\<lparr>tl_name = ''old'', tl_task = Some 7, tl_resource = Some 1,
          tl_start = 10, tl_end = 20\<rparr>]\<rparr>
   \<and> validate_resource
     \<lparr>tl_name = ''new'', tl_task = None, tl_resource = None, tl_start = 15, tl_end = 30\<rparr>
     (ResourceUser \<lparr>user_ident = 1, user_time_logs =
        [\<lparr>tl_name = ''old'', tl_task = Some 7, tl_resource = Some 1,
          tl_start = 10, tl_end = 20\<rparr>]\<rparr>)
   = Inl (OverBookedError 1
        \<lparr>tl_name = ''new'', tl_task = None, tl_resource = None, tl_start = 15, tl_end = 30\<rparr>
        \<lparr>tl_name = ''old'', tl_task = Some 7, tl_resource = Some 1,
          tl_start = 10, tl_end = 20\<rparr>)"
proof -
  let ?new = "\<lparr>tl_name = ''new'', tl_task = None, tl_resource = None,
                tl_start = 20, tl_end = 30\<rparr>"
  let ?inside = "\<lparr>tl_name = ''new'', tl_task = None, tl_resource = None,
                tl_start = 15, tl_end = 30\<rparr>"
  let ?old = "\<lparr>tl_name = ''old'', tl_task = Some 7, tl_resource = Some 1,
                tl_start = 10, tl_end = 20\<rparr>"
  let ?u = "\<lparr>user_ident = 1, user_time_logs = [?old]\<rparr>"
  have accepted: "validate_resource ?new (ResourceUser ?u) = Inr ?u"
    using validate_resource_strict_overlap [of ?u ?new, THEN conjunct2, THEN conjunct2]
    by simp
  have rejected: "validate_resource ?inside (ResourceUser ?u)
      = Inl (OverBookedError 1 ?inside ?old)"
    using validate_resource_strict_overlap [of ?u ?inside, THEN conjunct1]
    by simp
  from accepted rejected show ?thesis by blast
qed

subsection \<open>The caches and \<^verbatim>\<open>update_schedule_info\<close>\<close>


lemma strip_tasks:
  assumes "strip_caches db = strip_caches db'"
  shows "(tasks db t)\<lparr>schedule_seconds_col := None, total_logged_seconds_col := None\<rparr>
       = (tasks db' t)\<lparr>schedule_seconds_col := None, total_logged_seconds_col := None\<rparr>"
proof -
  from assms have "tasks (strip_caches db) t = tasks (strip_caches db') t" by simp
  then show ?thesis by (simp add: strip_caches_def)
qed

lemma struct_fields:
  assumes "strip_caches db = strip_caches db'"
  shows "children (tasks db t) = children (tasks db' t)"
    and "parent (tasks db t) = parent (tasks db' t)"
    and "time_logs (tasks db t) = time_logs (tasks db' t)"
    and "schedule_timing (tasks db t) = schedule_timing (tasks db' t)"
    and "schedule_unit (tasks db t) = schedule_unit (tasks db' t)"
    and "schedule_model (tasks db t) = schedule_model (tasks db' t)"
    and "unit_seconds db = unit_seconds db'"
proof -
  note e = strip_tasks [OF assms, of t]
  from arg_cong [OF e, of children] show "children (tasks db t) = children (tasks db' t)" by simp
  from arg_cong [OF e, of parent] show "parent (tasks db t) = parent (tasks db' t)" by simp
  from arg_cong [OF e, of time_logs] show "time_logs (tasks db t) = time_logs (tasks db' t)" by simp
  from arg_cong [OF e, of schedule_timing]
  show "schedule_timing (tasks db t) = schedule_timing (tasks db' t)" by simp
  from arg_cong [OF e, of schedule_unit]
  show "schedule_unit (tasks db t) = schedule_unit (tasks db' t)" by simp
  from arg_cong [OF e, of schedule_model]
  show "schedule_model (tasks db t) = schedule_model (tasks db' t)" by simp
  from arg_cong [OF assms, of unit_seconds] show "unit_seconds db = unit_seconds db'"
    by (simp add: strip_caches_def)
qed

lemma struct_is_container:
  "strip_caches db = strip_caches db' \<Longrightarrow> is_container db t = is_container db' t"
  by (simp add: is_container_def struct_fields(1) [of db db'])

lemma struct_leaf_schedule_seconds:
  "strip_caches db = strip_caches db' \<Longrightarrow> leaf_schedule_seconds db t = leaf_schedule_seconds db' t"
  by (simp add: leaf_schedule_seconds_def to_seconds_def struct_fields(4-7) [of db db'])

lemma struct_leaf_total_logged_seconds:
  "strip_caches db = strip_caches db' \<Longrightarrow>
     leaf_total_logged_seconds db t = leaf_total_logged_seconds db' t"
  by (simp add: leaf_total_logged_seconds_def struct_fields(3) [of db db'])

lemma strip_update_cols [simp]:
  "strip_caches (update_task t (\<lambda>x. x\<lparr>schedule_seconds_col := a\<rparr>) db) = strip_caches db"
  "strip_caches (update_task t (\<lambda>x. x\<lparr>total_logged_seconds_col := b\<rparr>) db) = strip_caches db"
  "strip_caches (update_task t (\<lambda>x. x\<lparr>schedule_seconds_col := a,
       total_logged_seconds_col := b\<rparr>) db) = strip_caches db"
  by (auto simp: strip_caches_def update_task_def fun_eq_iff)

lemma tasks_update_task [simp]:
  "tasks (update_task t f db) u = (if u = t then f (tasks db t) else tasks db u)"
  by (simp add: update_task_def)

lemma schedule_seconds_getter_with_spec:
  assumes ok: "updates_to upd db0 S L T"
    and st: "strip_caches db = strip_caches db0"
    and T: "is_container db0 c \<longrightarrow> T c"
    and pre: "cached db0 db S L c"
  shows "\<exists>db'. schedule_seconds_getter_with upd c db = Some (child_schedule db0 S c, db')
           \<and> strip_caches db' = strip_caches db0 \<and> cached db0 db' S L c"
proof (cases "is_container db0 c")
  case False
  then have "\<not> is_container db c" using struct_is_container [OF st] by simp
  then show ?thesis using False st pre
    by (simp add: schedule_seconds_getter_with_def child_schedule_def
        struct_leaf_schedule_seconds [OF st])
next
  case True
  then have c: "is_container db c" using struct_is_container [OF st] by simp
  from True pre have col: "schedule_seconds_col (tasks db c) = Some (S c)"
    by (simp add: cached_def)
  show ?thesis
  proof (cases "S c < 0")
    case False
    then show ?thesis using c col st pre True
      by (simp add: schedule_seconds_getter_with_def return_col_def child_schedule_def)
  next
    case neg: True
    from ok T True st obtain db1 where
      u: "upd c db = Some db1" and st1: "strip_caches db1 = strip_caches db0"
      and c1: "schedule_seconds_col (tasks db1 c) = Some (S c)"
      and c2: "total_logged_seconds_col (tasks db1 c) = Some (L c)"
      unfolding updates_to_def by blast
    then show ?thesis using c col neg True
      by (simp add: schedule_seconds_getter_with_def return_col_def child_schedule_def
          cached_def)
  qed
qed

lemma total_logged_seconds_getter_with_spec:
  assumes ok: "updates_to upd db0 S L T"
    and st: "strip_caches db = strip_caches db0"
    and T: "is_container db0 c \<longrightarrow> T c"
    and pre: "cached db0 db S L c"
  shows "\<exists>db'. total_logged_seconds_getter_with upd c db = Some (child_logged db0 L c, db')
           \<and> strip_caches db' = strip_caches db0 \<and> cached db0 db' S L c"
proof (cases "is_container db0 c")
  case False
  then have "\<not> is_container db c" using struct_is_container [OF st] by simp
  then show ?thesis using False st pre
    by (simp add: total_logged_seconds_getter_with_def child_logged_def is_leaf_def
        struct_leaf_total_logged_seconds [OF st])
next
  case True
  then have c: "is_container db c" using struct_is_container [OF st] by simp
  from True pre have col: "total_logged_seconds_col (tasks db c) = Some (L c)"
    by (simp add: cached_def)
  then show ?thesis using c st pre True
    by (simp add: total_logged_seconds_getter_with_def return_col_def child_logged_def
        is_leaf_def)
qed

lemma update_children_spec:
  assumes ok: "updates_to upd db0 S L T"
  shows "strip_caches db = strip_caches db0 \<Longrightarrow> \<forall>c \<in> set cs. is_container db0 c \<longrightarrow> T c \<Longrightarrow>
    \<exists>db'. update_children upd cs lg ss db
            = Some (lg + sum_list (map (child_logged db0 L) cs),
                    ss + sum_list (map (child_schedule db0 S) cs), db')
         \<and> strip_caches db' = strip_caches db0"
proof (induction cs arbitrary: lg ss db)
  case Nil
  then show ?case by simp
next
  case (Cons c cs)
  note st = Cons.prems(1)
  from Cons.prems(2) have T: "is_container db0 c \<longrightarrow> T c"
    and Ts: "\<forall>c \<in> set cs. is_container db0 c \<longrightarrow> T c" by simp_all
  have "\<exists>db1. (if is_container db c then upd c db else Some db) = Some db1
          \<and> strip_caches db1 = strip_caches db0 \<and> cached db0 db1 S L c"
  proof (cases "is_container db0 c")
    case True
    with ok T st obtain db1 where "upd c db = Some db1" "strip_caches db1 = strip_caches db0"
      "schedule_seconds_col (tasks db1 c) = Some (S c)"
      "total_logged_seconds_col (tasks db1 c) = Some (L c)"
      unfolding updates_to_def by blast
    then show ?thesis using True struct_is_container [OF st, of c] by (simp add: cached_def)
  next
    case False
    then show ?thesis using st struct_is_container [OF st, of c] by (simp add: cached_def)
  qed
  then obtain db1 where s1: "(if is_container db c then upd c db else Some db) = Some db1"
    and st1: "strip_caches db1 = strip_caches db0" and ca1: "cached db0 db1 S L c" by blast
  from schedule_seconds_getter_with_spec [OF ok st1 T ca1] obtain db2 where
    s2: "schedule_seconds_getter_with upd c db1 = Some (child_schedule db0 S c, db2)"
    and st2: "strip_caches db2 = strip_caches db0" and ca2: "cached db0 db2 S L c" by blast
  have "\<exists>db3. (if child_schedule db0 S c \<noteq> 0
           then do { (s2, db3) \<leftarrow> schedule_seconds_getter_with upd c db2;
                     Some (ss + s2, db3) }
           else Some (ss, db2)) = Some (ss + child_schedule db0 S c, db3)
        \<and> strip_caches db3 = strip_caches db0 \<and> cached db0 db3 S L c"
  proof (cases "child_schedule db0 S c = 0")
    case True
    then show ?thesis using st2 ca2 by simp
  next
    case False
    from schedule_seconds_getter_with_spec [OF ok st2 T ca2] obtain db3 where
      "schedule_seconds_getter_with upd c db2 = Some (child_schedule db0 S c, db3)"
      "strip_caches db3 = strip_caches db0" "cached db0 db3 S L c" by blast
    then show ?thesis using False by simp
  qed
  then obtain db3 where s3: "(if child_schedule db0 S c \<noteq> 0
           then do { (s2, db3) \<leftarrow> schedule_seconds_getter_with upd c db2;
                     Some (ss + s2, db3) }
           else Some (ss, db2)) = Some (ss + child_schedule db0 S c, db3)"
    and st3: "strip_caches db3 = strip_caches db0" and ca3: "cached db0 db3 S L c" by blast
  from total_logged_seconds_getter_with_spec [OF ok st3 T ca3] obtain db4 where
    s4: "total_logged_seconds_getter_with upd c db3 = Some (child_logged db0 L c, db4)"
    and st4: "strip_caches db4 = strip_caches db0" and ca4: "cached db0 db4 S L c" by blast
  have "\<exists>db5. (if child_logged db0 L c \<noteq> 0
           then do { (l2, db5) \<leftarrow> total_logged_seconds_getter_with upd c db4;
                     Some (lg + l2, db5) }
           else Some (lg, db4)) = Some (lg + child_logged db0 L c, db5)
        \<and> strip_caches db5 = strip_caches db0"
  proof (cases "child_logged db0 L c = 0")
    case True
    then show ?thesis using st4 by simp
  next
    case False
    from total_logged_seconds_getter_with_spec [OF ok st4 T ca4] obtain db5 where
      "total_logged_seconds_getter_with upd c db4 = Some (child_logged db0 L c, db5)"
      "strip_caches db5 = strip_caches db0" by blast
    then show ?thesis using False by simp
  qed
  then obtain db5 where s5: "(if child_logged db0 L c \<noteq> 0
           then do { (l2, db5) \<leftarrow> total_logged_seconds_getter_with upd c db4;
                     Some (lg + l2, db5) }
           else Some (lg, db4)) = Some (lg + child_logged db0 L c, db5)"
    and st5: "strip_caches db5 = strip_caches db0" by blast
  from Cons.IH [OF st5 Ts, of "lg + child_logged db0 L c" "ss + child_schedule db0 S c"]
  obtain db' where r: "update_children upd cs (lg + child_logged db0 L c)
       (ss + child_schedule db0 S c) db5
     = Some (lg + child_logged db0 L c + sum_list (map (child_logged db0 L) cs),
             ss + child_schedule db0 S c + sum_list (map (child_schedule db0 S) cs), db')"
    and st': "strip_caches db' = strip_caches db0" by blast
  have "update_children upd (c # cs) lg ss db
     = Some (lg + child_logged db0 L c + sum_list (map (child_logged db0 L) cs),
             ss + child_schedule db0 S c + sum_list (map (child_schedule db0 S) cs), db')"
    by (simp only: update_children.simps s1 s2 s3 s4 s5 r Option.bind.simps prod.case)
  then show ?case using st' by (simp add: add.assoc)
qed

lemma update_schedule_info_spec:
  assumes r: "ranked db0 r"
  shows "updates_to (update_schedule_info n) db0 (sum_schedule_seconds n db0)
           (sum_total_logged_seconds n db0) (\<lambda>t. r t < n)"
proof (induction n)
  case 0
  show ?case by (simp add: updates_to_def)
next
  case (Suc n)
  show ?case
    unfolding updates_to_def
  proof (intro allI impI)
    fix t db
    assume rt: "r t < Suc n" and st: "strip_caches db = strip_caches db0"
    show "\<exists>db'. update_schedule_info (Suc n) t db = Some db'
            \<and> strip_caches db' = strip_caches db0
            \<and> schedule_seconds_col (tasks db' t) = Some (sum_schedule_seconds (Suc n) db0 t)
            \<and> total_logged_seconds_col (tasks db' t)
                = Some (sum_total_logged_seconds (Suc n) db0 t)"
    proof (cases "is_container db0 t")
      case True
      then have c: "is_container db t" using struct_is_container [OF st] by simp
      have cs: "children (tasks db t) = children (tasks db0 t)"
        by (rule struct_fields(1) [OF st])
      have Ts: "\<forall>c \<in> set (children (tasks db0 t)). is_container db0 c \<longrightarrow> r c < n"
        using r rt unfolding ranked_def by fastforce
      from update_children_spec [OF Suc.IH st Ts, of 0 0] obtain db1 where
        u: "update_children (update_schedule_info n) (children (tasks db0 t)) 0 0 db
            = Some (0 + sum_list (map (child_logged db0 (sum_total_logged_seconds n db0))
                                   (children (tasks db0 t))),
                    0 + sum_list (map (child_schedule db0 (sum_schedule_seconds n db0))
                                   (children (tasks db0 t))), db1)"
        and st1: "strip_caches db1 = strip_caches db0" by blast
      have a: "sum_schedule_seconds (Suc n) db0 t
               = sum_list (map (child_schedule db0 (sum_schedule_seconds n db0))
                            (children (tasks db0 t)))"
        using True by (simp add: child_schedule_def cong: map_cong)
      have b: "sum_total_logged_seconds (Suc n) db0 t
               = sum_list (map (child_logged db0 (sum_total_logged_seconds n db0))
                            (children (tasks db0 t)))"
        using True by (simp add: child_logged_def cong: map_cong)
      show ?thesis using c cs u st1 a b by simp
    next
      case False
      then have c: "\<not> is_container db t" using struct_is_container [OF st] by simp
      have c2: "\<And>f. is_leaf (update_task t (\<lambda>x. x\<lparr>schedule_seconds_col := f\<rparr>) db) t"
        using c by (simp add: is_leaf_def is_container_def)
      have l2: "\<And>f. leaf_total_logged_seconds
                      (update_task t (\<lambda>x. x\<lparr>schedule_seconds_col := f\<rparr>) db) t
                 = leaf_total_logged_seconds db0 t"
        using struct_leaf_total_logged_seconds [OF st, of t]
        by (simp add: leaf_total_logged_seconds_def)
      show ?thesis using c False st c2 l2 struct_leaf_schedule_seconds [OF st, of t]
        by (simp add: schedule_seconds_getter_with_def total_logged_seconds_getter_with_def)
    qed
  qed
qed

text \<open>
  C9: calling \<^verbatim>\<open>update_schedule_info()\<close> twice in succession on a task leaves the
  same values in its two cache columns. On a store whose children lists form a forest
  of finite depth (every child ranks below its parent), and with a bound on the nested
  calls above the rank of the task, both calls return, and the second one stores what
  the first one stored.
\<close>

theorem update_schedule_info_idempotent:
  assumes "ranked db r" and "r t < n"
  shows "\<exists>db1 db2. update_schedule_info n t db = Some db1
           \<and> update_schedule_info n t db1 = Some db2
           \<and> schedule_seconds_col (tasks db2 t) = schedule_seconds_col (tasks db1 t)
           \<and> total_logged_seconds_col (tasks db2 t) = total_logged_seconds_col (tasks db1 t)"
proof -
  note spec = update_schedule_info_spec [OF assms(1), of n, unfolded updates_to_def, rule_format]
  from spec [OF assms(2), of db] obtain db1 where
    1: "update_schedule_info n t db = Some db1" "strip_caches db1 = strip_caches db"
       "schedule_seconds_col (tasks db1 t) = Some (sum_schedule_seconds n db t)"
       "total_logged_seconds_col (tasks db1 t) = Some (sum_total_logged_seconds n db t)"
    by blast
  from spec [OF assms(2) 1(2)] obtain db2 where
    2: "update_schedule_info n t db1 = Some db2"
       "schedule_seconds_col (tasks db2 t) = Some (sum_schedule_seconds n db t)"
       "total_logged_seconds_col (tasks db2 t) = Some (sum_total_logged_seconds n db t)"
    by blast
  from 1 2 show ?thesis by simp
qed

theorem update_schedule_info_idempotent_witness:
  "ranked family_db (\<lambda>t. if t = 1 then 1 else 0) \<and> (if (1::nat) = 1 then 1 else 0) < (2::nat)
   \<and> (\<exists>db1 db2. update_schedule_info 2 1 family_db = Some db1
           \<and> update_schedule_info 2 1 db1 = Some db2
           \<and> schedule_seconds_col (tasks db2 1) = schedule_seconds_col (tasks db1 1)
           \<and> total_logged_seconds_col (tasks db2 1) = total_logged_seconds_col (tasks db1 1))"
proof -
  have r: "ranked family_db (\<lambda>t. if t = 1 then 1 else 0)"
    by (simp add: ranked_def family_db_def new_task_def)
  have n: "(if (1::nat) = 1 then 1 else 0) < (2::nat)" by simp
  from r n update_schedule_info_idempotent [OF r n] show ?thesis by blast
qed

subsection \<open>Adding a child\<close>

text \<open>
  C1: the cache of every container equals the sum over its direct children after any
  sequence of child additions. In the chain 1 above 2 above 3, the leaf 3 (one hour)
  gets the task 4 (two hours) as its first child by \<^verbatim>\<open>task4.parent = task3\<close>.
  \<^verbatim>\<open>_validate_parent\<close> does nothing for a new parent that is a leaf (the setters act
  on containers only), and \<^verbatim>\<open>_validate_children\<close> writes to the cache column of
  task 2 directly: task 3 and task 2 then count 7200 seconds, and task 1, whose only
  child is task 2, still reads 3600.
\<close>

theorem first_child_not_propagated_to_grandparent:
  "after (set_parent 6 4 (ParentTask 3) chain_db) (\<lambda>db. children (tasks db 1)) = Some [2]
   \<and> read_after (set_parent 6 4 (ParentTask 3) chain_db) (schedule_seconds_getter 6 2) = Some 7200
   \<and> read_after (set_parent 6 4 (ParentTask 3) chain_db) (schedule_seconds_getter 6 1) = Some 3600
   \<and> after (set_parent 6 4 (ParentTask 3) chain_db) (\<lambda>db. schedule_seconds_col (tasks db 1))
       = Some (Some 3600)"
  by code_simp

subsection \<open>Dependencies\<close>



subsection \<open>Dates of a container\<close>



lemma strip_dates_tasks:
  assumes "strip_dates db = strip_dates db'"
  shows "(tasks db t)\<lparr>start_col := 0, end_col := 0, duration_col := 0\<rparr>
       = (tasks db' t)\<lparr>start_col := 0, end_col := 0, duration_col := 0\<rparr>"
proof -
  from assms have "tasks (strip_dates db) t = tasks (strip_dates db') t" by simp
  then show ?thesis by (simp add: strip_dates_def)
qed

lemma dates_fields:
  assumes "strip_dates db = strip_dates db'"
  shows "children (tasks db t) = children (tasks db' t)"
    and "parent (tasks db t) = parent (tasks db' t)"
    and "timing_resolution db = timing_resolution db'"
    and "now db = now db'"
proof -
  note e = strip_dates_tasks [OF assms, of t]
  from arg_cong [OF e, of children] show "children (tasks db t) = children (tasks db' t)" by simp
  from arg_cong [OF e, of parent] show "parent (tasks db t) = parent (tasks db' t)" by simp
  from arg_cong [OF assms, of timing_resolution]
  show "timing_resolution db = timing_resolution db'" by (simp add: strip_dates_def)
  from arg_cong [OF assms, of now] show "now db = now db'" by (simp add: strip_dates_def)
qed

lemma rooted_strip_dates: "strip_dates db = strip_dates db' \<Longrightarrow> rooted db d = rooted db' d"
  by (simp add: rooted_def dates_fields(2) [of db db'])

lemma strip_dates_set_dates [simp]: "strip_dates (set_dates t dates db) = strip_dates db"
  by (cases dates) (auto simp: strip_dates_def set_dates_def update_task_def fun_eq_iff)

lemma tasks_set_dates_other: "u \<noteq> t \<Longrightarrow> tasks (set_dates t dates db) u = tasks db u"
  by (cases dates) (simp add: set_dates_def)

lemma parent_set_dates [simp]: "parent (tasks (set_dates t dates db) u) = parent (tasks db u)"
  by (cases dates) (simp add: set_dates_def)

lemma dates_spec:
  "\<forall>db. rooted db d \<longrightarrow>
     (\<forall>t v. 2 * d t < k \<longrightarrow>
        sets_dates d t db (start_setter k t v db)
          (validate_dates db (Some v) (Some (end_col (tasks db t)))
             (Some (duration_col (tasks db t)))))
   \<and> (\<forall>t v. 2 * d t < k \<longrightarrow>
        sets_dates d t db (end_setter k t v db)
          (validate_dates db (Some (start_col (tasks db t))) (Some v)
             (Some (duration_col (tasks db t)))))
   \<and> (\<forall>p s e. 2 * d p + 1 < k \<longrightarrow> expands_dates d p db (expand_dates k (Some p) s e db))"
proof (induction k)
  case 0
  show ?case by simp
next
  case (Suc k)
  have setter: "sets_dates d t db
      (expand_dates k (parent (tasks (set_dates t dates db) t))
         (start_col (tasks (set_dates t dates db) t)) (end_col (tasks (set_dates t dates db) t))
         (set_dates t dates db)) dates"
    if r: "rooted db d" and f: "2 * d t < Suc k" for db t dates
  proof (cases "parent (tasks db t)")
    case None
    then show ?thesis
      by (simp add: sets_dates_def tasks_set_dates_other)
  next
    case (Some p)
    with r have dp: "d p < d t" by (simp add: rooted_def)
    with f have fp: "2 * d p + 1 < k" by simp
    let ?db1 = "set_dates t dates db"
    have r1: "rooted ?db1 d" using r rooted_strip_dates [of ?db1 db d] by simp
    from Suc.IH r1 fp have "expands_dates d p ?db1
        (expand_dates k (Some p) (start_col (tasks ?db1 t)) (end_col (tasks ?db1 t)) ?db1)"
      by blast
    then obtain db' where
      e: "expand_dates k (Some p) (start_col (tasks ?db1 t)) (end_col (tasks ?db1 t)) ?db1
          = Some db'"
      and s: "strip_dates db' = strip_dates ?db1"
      and fr: "\<forall>u. u \<noteq> p \<and> d p \<le> d u \<longrightarrow> tasks db' u = tasks ?db1 u"
      unfolding expands_dates_def by blast
    have "tasks db' t = tasks ?db1 t" using fr dp by auto
    moreover have "\<forall>u. u \<noteq> t \<and> d t \<le> d u \<longrightarrow> tasks db' u = tasks db u"
    proof (intro allI impI)
      fix u assume u: "u \<noteq> t \<and> d t \<le> d u"
      with dp have "u \<noteq> p \<and> d p \<le> d u" by auto
      with fr have "tasks db' u = tasks ?db1 u" by blast
      with u show "tasks db' u = tasks db u" by (simp add: tasks_set_dates_other)
    qed
    ultimately show ?thesis using e s Some by (simp add: sets_dates_def)
  qed
  show ?case
  proof (intro allI impI conjI)
    fix db t v
    assume r: "rooted db d" and f: "2 * d t < Suc k"
    show "sets_dates d t db (start_setter (Suc k) t v db)
          (validate_dates db (Some v) (Some (end_col (tasks db t)))
             (Some (duration_col (tasks db t))))"
      using setter [OF r f] by (simp add: Let_def)
  next
    fix db t v
    assume r: "rooted db d" and f: "2 * d t < Suc k"
    show "sets_dates d t db (end_setter (Suc k) t v db)
          (validate_dates db (Some (start_col (tasks db t))) (Some v)
             (Some (duration_col (tasks db t))))"
      using setter [OF r f] by (simp add: Let_def)
  next
    fix db p s e
    assume r: "rooted db d" and f: "2 * d p + 1 < Suc k"
    then have fp: "2 * d p < k" by simp
    have "\<exists>db1. (if start_col (tasks db p) > s then start_setter k p s db else Some db) = Some db1
            \<and> strip_dates db1 = strip_dates db
            \<and> (\<forall>u. u \<noteq> p \<and> d p \<le> d u \<longrightarrow> tasks db1 u = tasks db u)"
    proof (cases "start_col (tasks db p) > s")
      case True
      from Suc.IH r fp have "sets_dates d p db (start_setter k p s db)
          (validate_dates db (Some s) (Some (end_col (tasks db p)))
             (Some (duration_col (tasks db p))))" by blast
      then show ?thesis using True unfolding sets_dates_def by auto
    next
      case False
      then show ?thesis by simp
    qed
    then obtain db1 where
      1: "(if start_col (tasks db p) > s then start_setter k p s db else Some db) = Some db1"
      and s1: "strip_dates db1 = strip_dates db"
      and f1: "\<forall>u. u \<noteq> p \<and> d p \<le> d u \<longrightarrow> tasks db1 u = tasks db u" by blast
    have r1: "rooted db1 d" using r rooted_strip_dates [OF s1] by simp
    have "\<exists>db2. (if end_col (tasks db1 p) < e then end_setter k p e db1 else Some db1) = Some db2
            \<and> strip_dates db2 = strip_dates db1
            \<and> (\<forall>u. u \<noteq> p \<and> d p \<le> d u \<longrightarrow> tasks db2 u = tasks db1 u)"
    proof (cases "end_col (tasks db1 p) < e")
      case True
      from Suc.IH r1 fp have "sets_dates d p db1 (end_setter k p e db1)
          (validate_dates db1 (Some (start_col (tasks db1 p))) (Some e)
             (Some (duration_col (tasks db1 p))))" by blast
      then show ?thesis using True unfolding sets_dates_def by auto
    next
      case False
      then show ?thesis by simp
    qed
    then obtain db2 where
      2: "(if end_col (tasks db1 p) < e then end_setter k p e db1 else Some db1) = Some db2"
      and s2: "strip_dates db2 = strip_dates db1"
      and f2: "\<forall>u. u \<noteq> p \<and> d p \<le> d u \<longrightarrow> tasks db2 u = tasks db1 u" by blast
    have "expand_dates (Suc k) (Some p) s e db = Some db2"
      using 1 2 by (simp del: start_setter.simps end_setter.simps)
    then show "expands_dates d p db (expand_dates (Suc k) (Some p) s e db)"
      using s1 s2 f1 f2 by (simp add: expands_dates_def)
  qed
qed

lemma children_range_fold:
  "foldl (\<lambda>(start_v, end_v) child.
              if child \<noteq> c
              then (if start_col (tasks db child) < start_v then start_col (tasks db child)
                    else start_v,
                    if end_col (tasks db child) > end_v then end_col (tasks db child)
                    else end_v)
              else (start_v, end_v)) (s0, e0) cs = (s, e) \<Longrightarrow>
   s \<le> s0 \<and> e0 \<le> e
   \<and> (\<forall>x \<in> set cs. x \<noteq> c \<longrightarrow> s \<le> start_col (tasks db x) \<and> end_col (tasks db x) \<le> e)
   \<and> (s = s0 \<or> (\<exists>x \<in> set cs. x \<noteq> c \<and> s = start_col (tasks db x)))
   \<and> (e = e0 \<or> (\<exists>x \<in> set cs. x \<noteq> c \<and> e = end_col (tasks db x)))"
proof (induction cs arbitrary: s0 e0)
  case Nil
  then show ?case by simp
next
  case (Cons a cs)
  show ?case
  proof (cases "a = c")
    case True
    with Cons.prems Cons.IH [of s0 e0] show ?thesis by auto
  next
    case False
    let ?s1 = "if start_col (tasks db a) < s0 then start_col (tasks db a) else s0"
    let ?e1 = "if end_col (tasks db a) > e0 then end_col (tasks db a) else e0"
    from Cons.prems False have "foldl (\<lambda>(start_v, end_v) child.
              if child \<noteq> c
              then (if start_col (tasks db child) < start_v then start_col (tasks db child)
                    else start_v,
                    if end_col (tasks db child) > end_v then end_col (tasks db child)
                    else end_v)
              else (start_v, end_v)) (?s1, ?e1) cs = (s, e)" by simp
    from Cons.IH [OF this] have
      a: "s \<le> ?s1" and b: "?e1 \<le> e"
      and c: "\<forall>x \<in> set cs. x \<noteq> c \<longrightarrow> s \<le> start_col (tasks db x) \<and> end_col (tasks db x) \<le> e"
      and d: "s = ?s1 \<or> (\<exists>x \<in> set cs. x \<noteq> c \<and> s = start_col (tasks db x))"
      and e: "e = ?e1 \<or> (\<exists>x \<in> set cs. x \<noteq> c \<and> e = end_col (tasks db x))"
      by blast+
    have 1: "s \<le> s0" using a by (simp split: if_splits)
    have 2: "e0 \<le> e" using b by (simp split: if_splits)
    have 3: "s \<le> start_col (tasks db a)" using a by (simp split: if_splits)
    have 4: "end_col (tasks db a) \<le> e" using b by (simp split: if_splits)
    have 5: "s = s0 \<or> (\<exists>x \<in> set (a # cs). x \<noteq> c \<and> s = start_col (tasks db x))"
      using d False by (auto split: if_splits)
    have 6: "e = e0 \<or> (\<exists>x \<in> set (a # cs). x \<noteq> c \<and> e = end_col (tasks db x))"
      using e False by (auto split: if_splits)
    from 1 2 3 4 5 6 c show ?thesis by simp
  qed
qed

lemma children_range_spec:
  assumes "children_range db c cs = (s, e)"
  shows "s \<le> datetime_max" "datetime_min \<le> e"
    "\<forall>x \<in> set cs. x \<noteq> c \<longrightarrow> s \<le> start_col (tasks db x) \<and> end_col (tasks db x) \<le> e"
    "s = datetime_max \<or> (\<exists>x \<in> set cs. x \<noteq> c \<and> s = start_col (tasks db x))"
    "e = datetime_min \<or> (\<exists>x \<in> set cs. x \<noteq> c \<and> e = end_col (tasks db x))"
  using children_range_fold [OF assms [unfolded children_range_def]] by blast+

lemma validate_dates_start:
  "validate_dates db (Some s) e d' = (a, b, c) \<Longrightarrow> a = s"
  by (auto simp: validate_dates_def split: option.splits if_splits)

lemma validate_dates_ordered:
  "s \<le> e \<Longrightarrow> validate_dates db (Some s) (Some e) d' = (s, e, e - s)"
  by (simp add: validate_dates_def)

lemma start_col_set_dates: "start_col (tasks (set_dates t (a, b, c) db) t) = a"
  and end_col_set_dates: "end_col (tasks (set_dates t (a, b, c) db) t) = b"
  by (simp_all add: set_dates_def)

lemma removeAll_only: "\<forall>x \<in> set xs. x = c \<Longrightarrow> removeAll c xs = []"
  by (induction xs) auto

lemma remove_last_child:
  assumes r: "rooted db d" and f: "2 * d t < n" and p: "parent (tasks db c) = Some t"
    and only: "\<forall>x \<in> set (children (tasks db t)). x = c"
    and future: "now db \<le> end_col (tasks db t)"
  shows "\<exists>db'. leave_children n c db = Some db'
          \<and> start_col (tasks db' t) = now db \<and> end_col (tasks db' t) = end_col (tasks db t)
          \<and> is_leaf db' t
          \<and> schedule_seconds_getter n t db' = Some (leaf_schedule_seconds db' t, db')"
proof -
  obtain s e where se: "children_range db c (children (tasks db t)) = (s, e)"
    by (cases "children_range db c (children (tasks db t))") auto
  from children_range_spec(4,5) [OF se] only have "s = datetime_max" "e = datetime_min"
    by auto
  with se have u: "update_task_date_values n t c db = start_setter n t (now db) db"
    by (simp add: update_task_date_values_def)
  from dates_spec [of d n] r f have "sets_dates d t db (start_setter n t (now db) db)
      (validate_dates db (Some (now db)) (Some (end_col (tasks db t)))
         (Some (duration_col (tasks db t))))" by blast
  then obtain db1 where 1: "start_setter n t (now db) db = Some db1"
    and s1: "strip_dates db1 = strip_dates db"
    and t1: "tasks db1 t = tasks (set_dates t (now db, end_col (tasks db t),
                end_col (tasks db t) - now db) db) t"
    unfolding sets_dates_def using validate_dates_ordered [OF future] by auto
  let ?db' = "update_task t (\<lambda>x. x\<lparr>children := removeAll c (children x)\<rparr>) db1"
  have l: "leave_children n c db = Some ?db'"
    using p u 1 by (simp add: leave_children_def)
  have cs: "children (tasks db1 t) = children (tasks db t)"
    by (rule dates_fields(1) [OF s1])
  have "removeAll c (children (tasks db t)) = []"
    using only by (rule removeAll_only)
  then have leaf: "is_leaf ?db' t" using cs by (simp add: is_leaf_def is_container_def)
  then have g: "schedule_seconds_getter n t ?db' = Some (leaf_schedule_seconds ?db' t, ?db')"
    by (simp add: schedule_seconds_getter_def schedule_seconds_getter_with_def is_leaf_def)
  have "start_col (tasks ?db' t) = now db" "end_col (tasks ?db' t) = end_col (tasks db t)"
    using t1 by (simp_all add: set_dates_def)
  with l leaf g show ?thesis by blast
qed

lemma remove_other_child:
  assumes r: "rooted db d" and f: "2 * d t < n" and p: "parent (tasks db c) = Some t"
    and kids: "\<forall>x \<in> set (children (tasks db t)). parent (tasks db x) = Some t"
    and rest: "\<exists>x \<in> set (children (tasks db t)). x \<noteq> c"
    and ok: "\<forall>x \<in> set (children (tasks db t)). x \<noteq> c \<longrightarrow>
               start_col (tasks db x) \<le> end_col (tasks db x)
             \<and> start_col (tasks db x) < datetime_max \<and> datetime_min < end_col (tasks db x)"
  shows "\<exists>db'. leave_children n c db = Some db'
          \<and> children (tasks db' t) = removeAll c (children (tasks db t))
          \<and> (\<forall>x \<in> set (children (tasks db' t)). tasks db' x = tasks db x
                \<and> start_col (tasks db' t) \<le> start_col (tasks db' x)
                \<and> end_col (tasks db' x) \<le> end_col (tasks db' t))
          \<and> (\<exists>x \<in> set (children (tasks db' t)). start_col (tasks db' t) = start_col (tasks db' x))
          \<and> (\<exists>x \<in> set (children (tasks db' t)). end_col (tasks db' t) = end_col (tasks db' x))"
proof -
  let ?cs = "children (tasks db t)"
  obtain s e where se: "children_range db c ?cs = (s, e)"
    by (cases "children_range db c ?cs") auto
  note cr = children_range_spec [OF se]
  from rest obtain x0 where x0: "x0 \<in> set ?cs" "x0 \<noteq> c" by blast
  with ok have x0ok: "start_col (tasks db x0) \<le> end_col (tasks db x0)"
    "start_col (tasks db x0) < datetime_max" "datetime_min < end_col (tasks db x0)" by auto
  from cr(3) x0 have x0r: "s \<le> start_col (tasks db x0)" "end_col (tasks db x0) \<le> e" by auto
  have sne: "s \<noteq> datetime_max" using x0r x0ok by simp
  have ene: "e \<noteq> datetime_min" using x0r x0ok by simp
  have sle: "s \<le> e" using x0r x0ok by simp
  from cr(4) sne obtain xs where xs: "xs \<in> set ?cs" "xs \<noteq> c" "s = start_col (tasks db xs)"
    by blast
  from cr(5) ene obtain xe where xe: "xe \<in> set ?cs" "xe \<noteq> c" "e = end_col (tasks db xe)"
    by blast
  have u: "update_task_date_values n t c db
           = do { db1 \<leftarrow> start_setter n t s db; end_setter n t e db1 }"
    using se sne ene by (simp add: update_task_date_values_def)
  obtain a b c' where v: "validate_dates db (Some s) (Some (end_col (tasks db t)))
         (Some (duration_col (tasks db t))) = (a, b, c')"
    by (cases "validate_dates db (Some s) (Some (end_col (tasks db t)))
         (Some (duration_col (tasks db t)))") auto
  then have a: "a = s" by (rule validate_dates_start)
  from dates_spec [of d n] r f have "sets_dates d t db (start_setter n t s db)
      (validate_dates db (Some s) (Some (end_col (tasks db t)))
         (Some (duration_col (tasks db t))))" by blast
  then obtain db1 where 1: "start_setter n t s db = Some db1"
    and s1: "strip_dates db1 = strip_dates db"
    and f1: "\<forall>u. u \<noteq> t \<and> d t \<le> d u \<longrightarrow> tasks db1 u = tasks db u"
    and t1: "tasks db1 t = tasks (set_dates t (a, b, c') db) t"
    unfolding sets_dates_def v by blast
  have st1: "start_col (tasks db1 t) = s" using t1 a by (simp add: set_dates_def)
  have r1: "rooted db1 d" using r rooted_strip_dates [OF s1] by simp
  from dates_spec [of d n] r1 f have "sets_dates d t db1 (end_setter n t e db1)
      (validate_dates db1 (Some (start_col (tasks db1 t))) (Some e)
         (Some (duration_col (tasks db1 t))))" by blast
  then obtain db2 where 2: "end_setter n t e db1 = Some db2"
    and s2: "strip_dates db2 = strip_dates db1"
    and f2: "\<forall>u. u \<noteq> t \<and> d t \<le> d u \<longrightarrow> tasks db2 u = tasks db1 u"
    and t2: "tasks db2 t = tasks (set_dates t (s, e, e - s) db1) t"
    unfolding sets_dates_def st1 validate_dates_ordered [OF sle] by blast
  let ?db' = "update_task t (\<lambda>x. x\<lparr>children := removeAll c (children x)\<rparr>) db2"
  have l: "leave_children n c db = Some ?db'"
    using p u 1 2 by (simp add: leave_children_def)
  have cs: "children (tasks db2 t) = ?cs"
    using dates_fields(1) [OF s2, of t] dates_fields(1) [OF s1, of t] by simp
  then have c': "children (tasks ?db' t) = removeAll c ?cs" by simp
  have st: "start_col (tasks ?db' t) = s" and en: "end_col (tasks ?db' t) = e"
    using t2 by (simp_all add: set_dates_def)
  have same: "tasks ?db' x = tasks db x" if "x \<in> set ?cs" for x
  proof -
    from that kids have "parent (tasks db x) = Some t" by blast
    with r have "d t < d x" by (simp add: rooted_def)
    then have "x \<noteq> t \<and> d t \<le> d x" by auto
    with f1 f2 show ?thesis by simp
  qed
  have env: "\<forall>x \<in> set (children (tasks ?db' t)). tasks ?db' x = tasks db x
                \<and> start_col (tasks ?db' t) \<le> start_col (tasks ?db' x)
                \<and> end_col (tasks ?db' x) \<le> end_col (tasks ?db' t)"
  proof
    fix x assume "x \<in> set (children (tasks ?db' t))"
    then have x: "x \<in> set ?cs" "x \<noteq> c" unfolding c' by auto
    from same [OF x(1)] cr(3) x st en show "tasks ?db' x = tasks db x
                \<and> start_col (tasks ?db' t) \<le> start_col (tasks ?db' x)
                \<and> end_col (tasks ?db' x) \<le> end_col (tasks ?db' t)" by simp
  qed
  have "xs \<in> set (children (tasks ?db' t))" using xs unfolding c' by simp
  moreover have "start_col (tasks ?db' t) = start_col (tasks ?db' xs)"
    using same [OF xs(1)] xs(3) st by simp
  ultimately have hs: "\<exists>x \<in> set (children (tasks ?db' t)).
      start_col (tasks ?db' t) = start_col (tasks ?db' x)" by blast
  have "xe \<in> set (children (tasks ?db' t))" using xe unfolding c' by simp
  moreover have "end_col (tasks ?db' t) = end_col (tasks ?db' xe)"
    using same [OF xe(1)] xe(3) en by simp
  ultimately have he: "\<exists>x \<in> set (children (tasks ?db' t)).
      end_col (tasks ?db' t) = end_col (tasks ?db' x)" by blast
  from l c' env hs he show ?thesis by blast
qed

text \<open>
  C8: removing the last child of a container makes both the start and the end of the
  parent the current time. The listener assigns only
  \<^verbatim>\<open>task.start = datetime.datetime.now()\<close> and says of it that
  \<^verbatim>\<open>this will also update end\<close>, but the start setter hands the old end to the
  validation of the dates, which keeps an end that is not before the new start: at the
  time 1000 the container from 0 to 3600 loses its only child and then runs from 1000
  to 3600, with a duration of 2600. The other half of the claim holds
  (\<open>remove_other_child\<close>): while children remain, the range of the parent goes from
  their earliest start to their latest end.
\<close>

theorem removing_last_child_keeps_end:
  "after (returns (leave_children 3 2 single_child_db))
     (\<lambda>db. (children (tasks db 1), start_col (tasks db 1), end_col (tasks db 1),
            duration_col (tasks db 1)))
     = Some ([], 1000, 3600, 2600)
   \<and> now single_child_db = 1000"
  by code_simp

subsection \<open>The setters of the caches\<close>

lemma truthy_or_0_Some [simp]: "truthy_or_0 (Some v) = v"
  by (simp add: truthy_or_0_def)

lemma ancestors_depth:
  "rooted db d \<Longrightarrow> u \<in> set (ancestors k db t) \<Longrightarrow> d u < d t"
proof (induction k arbitrary: t)
  case 0
  then show ?case by simp
next
  case (Suc k)
  show ?case
  proof (cases "parent (tasks db t)")
    case None
    with Suc.prems(2) show ?thesis by simp
  next
    case (Some p)
    with Suc.prems(1) have dp: "d p < d t" by (simp add: rooted_def)
    from Some Suc.prems(2) have "u = p \<or> u \<in> set (ancestors k db p)" by simp
    then show ?thesis
    proof
      assume "u = p"
      with dp show ?thesis by simp
    next
      assume "u \<in> set (ancestors k db p)"
      from Suc.IH [OF Suc.prems(1) this] dp show ?thesis by simp
    qed
  qed
qed

lemma ancestors_struct:
  "strip_caches db = strip_caches db' \<Longrightarrow> ancestors k db t = ancestors k db' t"
  by (induction k arbitrary: t)
    (simp_all add: struct_fields(2) [of db db'] split: option.splits)

lemma rooted_struct: "strip_caches db = strip_caches db' \<Longrightarrow> rooted db d = rooted db' d"
  by (simp add: rooted_def struct_fields(2) [of db db'])

lemma has_total_logged_seconds_update_other:
  "t \<notin> A \<Longrightarrow> has_total_logged_seconds (update_task t f db) A = has_total_logged_seconds db A"
  unfolding has_total_logged_seconds_def is_container_def
  by (rule ball_cong) auto

lemma has_total_logged_seconds_mono:
  "has_total_logged_seconds db A \<Longrightarrow> B \<subseteq> A \<Longrightarrow> has_total_logged_seconds db B"
  unfolding has_total_logged_seconds_def by blast


lemma total_logged_seconds_getter_col:
  "is_container db p \<Longrightarrow> total_logged_seconds_col (tasks db p) = Some c \<Longrightarrow>
     total_logged_seconds_getter n p db = Some (c, db)"
  by (simp add: total_logged_seconds_getter_def total_logged_seconds_getter_with_def is_leaf_def
      return_col_def)


lemma total_logged_seconds_setter_spec:
  "rooted db d \<Longrightarrow> d t < k \<Longrightarrow> is_container db t \<Longrightarrow>
   has_total_logged_seconds db (set (ancestors k db t)) \<Longrightarrow>
   \<exists>db'. total_logged_seconds_setter k t s db = Some db'
      \<and> strip_caches db' = strip_caches db
      \<and> (\<forall>u. schedule_seconds_col (tasks db' u) = schedule_seconds_col (tasks db u))
      \<and> (\<forall>u. total_logged_seconds_col (tasks db' u) =
            (if u = t then Some s
             else if u \<in> set (ancestors k db t)
               then plus_col (s - truthy_or_0 (total_logged_seconds_col (tasks db t)))
                      (total_logged_seconds_col (tasks db u))
               else total_logged_seconds_col (tasks db u)))"
proof (induction k arbitrary: t s db)
  case 0
  then show ?case by simp
next
  case (Suc k)
  note r = Suc.prems(1) and c = Suc.prems(3) and ini = Suc.prems(4)
  define db1 where "db1 = update_task t (\<lambda>x. x\<lparr>total_logged_seconds_col := Some s\<rparr>) db"
  have st1: "strip_caches db1 = strip_caches db" by (simp add: db1_def)
  have par1: "parent (tasks db1 t) = parent (tasks db t)" by (simp add: db1_def)
  show ?case
  proof (cases "parent (tasks db t)")
    case None
    then have "total_logged_seconds_setter (Suc k) t s db = Some db1"
      using c by (simp add: db1_def)
    moreover have "\<forall>u. schedule_seconds_col (tasks db1 u) = schedule_seconds_col (tasks db u)"
      by (simp add: db1_def)
    moreover have "\<forall>u. total_logged_seconds_col (tasks db1 u) =
            (if u = t then Some s
             else if u \<in> set (ancestors (Suc k) db t)
               then plus_col (s - truthy_or_0 (total_logged_seconds_col (tasks db t)))
                      (total_logged_seconds_col (tasks db u))
               else total_logged_seconds_col (tasks db u))"
      using None by (simp add: db1_def)
    ultimately show ?thesis using st1 by blast
  next
    case (Some p)
    define old_value where "old_value = truthy_or_0 (total_logged_seconds_col (tasks db t))"
    from Some r have dp: "d p < d t" by (simp add: rooted_def)
    then have pt: "p \<noteq> t" by auto
    have anc: "ancestors (Suc k) db t = p # ancestors k db p" using Some by simp
    have tnot: "t \<notin> set (ancestors k db p)"
    proof
      assume "t \<in> set (ancestors k db p)"
      from ancestors_depth [OF r this] dp show False by simp
    qed
    from ini have ini': "has_total_logged_seconds db (insert p (set (ancestors k db p)))"
      unfolding anc by simp
    then have "has_total_logged_seconds db {p}" by (rule has_total_logged_seconds_mono) simp
    then obtain cp where cont: "is_container db p"
      and colp: "total_logged_seconds_col (tasks db p) = Some cp"
      by (auto simp: has_total_logged_seconds_def)
    have cont1: "is_container db1 p" using cont struct_is_container [OF st1] by simp
    have colp1: "total_logged_seconds_col (tasks db1 p) = Some cp"
      using colp pt by (simp add: db1_def)
    have g: "total_logged_seconds_getter k p db1 = Some (cp, db1)"
      by (rule total_logged_seconds_getter_col [OF cont1 colp1])
    have r1: "rooted db1 d" using r rooted_struct [OF st1] by simp
    from dp Suc.prems(2) have dk: "d p < k" by simp
    have anc1: "ancestors k db1 p = ancestors k db p" by (rule ancestors_struct [OF st1])
    from ini' have "has_total_logged_seconds db (set (ancestors k db p))"
      by (rule has_total_logged_seconds_mono) auto
    then have "has_total_logged_seconds db1 (set (ancestors k db p))"
      unfolding db1_def by (simp add: has_total_logged_seconds_update_other [OF tnot])
    then have ini1: "has_total_logged_seconds db1 (set (ancestors k db1 p))" by (simp only: anc1)
    from Suc.IH [OF r1 dk cont1 ini1, of "cp - old_value + s"] obtain db' where
      s: "total_logged_seconds_setter k p (cp - old_value + s) db1 = Some db'"
      and st: "strip_caches db' = strip_caches db1"
      and sc: "\<forall>u. schedule_seconds_col (tasks db' u) = schedule_seconds_col (tasks db1 u)"
      and tc: "\<forall>u. total_logged_seconds_col (tasks db' u) =
            (if u = p then Some (cp - old_value + s)
             else if u \<in> set (ancestors k db1 p)
               then plus_col (cp - old_value + s
                        - truthy_or_0 (total_logged_seconds_col (tasks db1 p)))
                      (total_logged_seconds_col (tasks db1 u))
               else total_logged_seconds_col (tasks db1 u))"
      by blast
    have "total_logged_seconds_setter (Suc k) t s db = Some db'"
      using c Some g s by (simp add: db1_def [symmetric] par1 old_value_def [symmetric])
    moreover have "strip_caches db' = strip_caches db" using st st1 by simp
    moreover have "\<forall>u. schedule_seconds_col (tasks db' u) = schedule_seconds_col (tasks db u)"
      using sc by (simp add: db1_def)
    moreover have "\<forall>u. total_logged_seconds_col (tasks db' u) =
            (if u = t then Some s
             else if u \<in> set (ancestors (Suc k) db t)
               then plus_col (s - truthy_or_0 (total_logged_seconds_col (tasks db t)))
                      (total_logged_seconds_col (tasks db u))
               else total_logged_seconds_col (tasks db u))"
    proof
      fix u
      have col1: "\<And>v. total_logged_seconds_col (tasks db1 v) =
          (if v = t then Some s else total_logged_seconds_col (tasks db v))"
        by (simp add: db1_def)
      have "cp - old_value + s - cp = s - old_value" by simp
      then show "total_logged_seconds_col (tasks db' u) =
            (if u = t then Some s
             else if u \<in> set (ancestors (Suc k) db t)
               then plus_col (s - truthy_or_0 (total_logged_seconds_col (tasks db t)))
                      (total_logged_seconds_col (tasks db u))
               else total_logged_seconds_col (tasks db u))"
        unfolding anc using tc [rule_format, of u, unfolded anc1] pt tnot colp
        by (simp add: col1 colp1 old_value_def [symmetric] plus_col_def)
    qed
    ultimately show ?thesis by blast
  qed
qed


lemma ancestors_fuel:
  "rooted db d \<Longrightarrow> d t \<le> k \<Longrightarrow> d t \<le> k' \<Longrightarrow> ancestors k db t = ancestors k' db t"
proof (induction k arbitrary: t k')
  case 0
  have "parent (tasks db t) = None"
  proof (cases "parent (tasks db t)")
    case (Some q)
    with "0.prems"(1) have "d q < d t" by (simp add: rooted_def)
    with "0.prems"(2) show ?thesis by simp
  qed simp
  then show ?case by (cases k') simp_all
next
  case (Suc k)
  show ?case
  proof (cases "parent (tasks db t)")
    case None
    then show ?thesis by (cases k') simp_all
  next
    case (Some p)
    with Suc.prems(1) have dp: "d p < d t" by (simp add: rooted_def)
    with Suc.prems(3) obtain m where k': "k' = Suc m" by (cases k') auto
    from dp Suc.prems(2,3) k' have "d p \<le> k" "d p \<le> m" by simp_all
    from Suc.IH [OF Suc.prems(1) this] show ?thesis using Some k' by simp
  qed
qed

lemma total_logged_seconds_plus:
  assumes r: "rooted db d" and dk: "d p < k"
    and ini: "has_total_logged_seconds db (insert p (set (ancestors k db p)))"
  shows "\<exists>c. total_logged_seconds_getter k p db = Some (c, db)
           \<and> adds_total_logged_seconds db (insert p (set (ancestors k db p))) x
                (total_logged_seconds_setter k p (c + x) db)"
proof -
  from ini obtain c where cont: "is_container db p"
    and col: "total_logged_seconds_col (tasks db p) = Some c"
    by (auto simp: has_total_logged_seconds_def)
  from ini have ini': "has_total_logged_seconds db (set (ancestors k db p))"
    by (rule has_total_logged_seconds_mono) auto
  from total_logged_seconds_setter_spec [OF r dk cont ini', of "c + x"] obtain db' where
    s: "total_logged_seconds_setter k p (c + x) db = Some db'"
    and st: "strip_caches db' = strip_caches db"
    and sc: "\<forall>u. schedule_seconds_col (tasks db' u) = schedule_seconds_col (tasks db u)"
    and tc: "\<forall>u. total_logged_seconds_col (tasks db' u) =
            (if u = p then Some (c + x)
             else if u \<in> set (ancestors k db p)
               then plus_col (c + x - truthy_or_0 (total_logged_seconds_col (tasks db p)))
                      (total_logged_seconds_col (tasks db u))
               else total_logged_seconds_col (tasks db u))"
    by blast
  have "\<forall>u. total_logged_seconds_col (tasks db' u) =
          (if u \<in> insert p (set (ancestors k db p))
           then plus_col x (total_logged_seconds_col (tasks db u))
           else total_logged_seconds_col (tasks db u))"
    using tc col by (simp add: plus_col_def)
  with s st sc have "adds_total_logged_seconds db (insert p (set (ancestors k db p))) x
      (total_logged_seconds_setter k p (c + x) db)"
    unfolding adds_total_logged_seconds_def by blast
  with total_logged_seconds_getter_col [OF cont col] show ?thesis by blast
qed

subsection \<open>Moving a time log\<close>

lemma timedelta_total_seconds: "timedelta_days x * 86400 + timedelta_seconds x = x"
  by (simp add: timedelta_days_def timedelta_seconds_def)

lemma update_total_logged_seconds_spec:
  assumes r: "rooted db d" and t: "tl_task tlog = Some t" and dk: "d t < k"
    and ini: "has_total_logged_seconds db (set (ancestors k db t))"
  shows "adds_total_logged_seconds db (set (ancestors k db t)) (new_duration - old_duration)
           (update_total_logged_seconds k tlog new_duration old_duration db)"
proof (cases "parent (tasks db t)")
  case None
  then have "ancestors k db t = []" by (cases k) simp_all
  then show ?thesis using t None
    by (simp add: update_total_logged_seconds_def adds_total_logged_seconds_def)
next
  case (Some p)
  with r have dp: "d p < d t" by (simp add: rooted_def)
  from dk obtain m where k: "k = Suc m" by (cases k) auto
  from dp dk k have "d p \<le> m" "d p \<le> k" by simp_all
  from ancestors_fuel [OF r this] have "ancestors m db p = ancestors k db p" .
  with Some k have anc: "set (ancestors k db t) = insert p (set (ancestors k db p))" by simp
  from dp dk have dpk: "d p < k" by simp
  from total_logged_seconds_plus [OF r dpk ini [unfolded anc], of "new_duration - old_duration"]
  obtain c where g: "total_logged_seconds_getter k p db = Some (c, db)"
    and s: "adds_total_logged_seconds db (insert p (set (ancestors k db p)))
              (new_duration - old_duration)
              (total_logged_seconds_setter k p (c + (new_duration - old_duration)) db)"
    by blast
  have e: "c - old_duration + new_duration = c + (new_duration - old_duration)" by simp
  have "update_total_logged_seconds k tlog new_duration old_duration db
      = total_logged_seconds_setter k p (c - old_duration + new_duration) db"
    using t Some g by (simp add: update_total_logged_seconds_def timedelta_total_seconds)
  then have "update_total_logged_seconds k tlog new_duration old_duration db
      = total_logged_seconds_setter k p (c + (new_duration - old_duration)) db"
    by (simp only: e)
  with s show ?thesis unfolding anc by simp
qed

text \<open>
  C5, as stated: moving the start of a time log re-runs the overbooking check against
  the new interval. The resource 1 is booked from 600 to 1200; its time log from 1800
  to 2400, of task 3, moves its start to 900. \<^verbatim>\<open>_validate_resource\<close> rejects a time
  log from 900 to 2400 for this resource, but the listener of the start, the only code
  that runs on the move, returns: the caches of the ancestors 2 and 1 of the task go
  from 600 to 1500 seconds.
\<close>

theorem start_listener_accepts_overbooking:
  "validate_resource
     \<lparr>tl_name = ''log'', tl_task = Some 3, tl_resource = Some 1, tl_start = 900, tl_end = 2400\<rparr>
     (ResourceUser \<lparr>user_ident = 1, user_time_logs =
        [\<lparr>tl_name = ''other'', tl_task = Some 7, tl_resource = Some 1,
          tl_start = 600, tl_end = 1200\<rparr>,
         \<lparr>tl_name = ''log'', tl_task = Some 3, tl_resource = Some 1,
          tl_start = 1800, tl_end = 2400\<rparr>]\<rparr>)
   = Inl (OverBookedError 1
        \<lparr>tl_name = ''log'', tl_task = Some 3, tl_resource = Some 1,
          tl_start = 900, tl_end = 2400\<rparr>
        \<lparr>tl_name = ''other'', tl_task = Some 7, tl_resource = Some 1,
          tl_start = 600, tl_end = 1200\<rparr>)
   \<and> map_option (\<lambda>db. (total_logged_seconds_col (tasks db 2),
                         total_logged_seconds_col (tasks db 1)))
       (update_time_log_task_parents_for_start 3
          \<lparr>tl_name = ''log'', tl_task = Some 3, tl_resource = Some 1,
            tl_start = 1800, tl_end = 2400\<rparr>
          (Some 900) (Some 1800) logged_db)
     = Some (Some 1500, Some 1500)"
  by code_simp

text \<open>
  C5, amended: the listeners of the start and of the end of a time log run no
  overbooking check; they return for every new value. In a store whose parent links
  lead to a root, with a bound on the nested calls above the depth of the task of the
  time log, and where every ancestor of that task is a container whose
  \<^verbatim>\<open>_total_logged_seconds\<close> is a number, each listener adds the new duration minus
  the old duration to the \<^verbatim>\<open>_total_logged_seconds\<close> of every ancestor of the task,
  and changes nothing else.
\<close>

theorem time_log_listeners_propagate_delta:
  assumes "rooted db d" and "tl_task tlog = Some t" and "d t < k"
    and "has_total_logged_seconds db (set (ancestors k db t))"
  shows "adds_total_logged_seconds db (set (ancestors k db t))
           ((tl_end tlog - new_start) - (tl_end tlog - old_start))
           (update_time_log_task_parents_for_start k tlog (Some new_start) (Some old_start) db)
       \<and> adds_total_logged_seconds db (set (ancestors k db t))
           ((new_end - tl_start tlog) - (old_end - tl_start tlog))
           (update_time_log_task_parents_for_end k tlog (Some new_end) (Some old_end) db)"
proof
  show "adds_total_logged_seconds db (set (ancestors k db t))
           ((tl_end tlog - new_start) - (tl_end tlog - old_start))
           (update_time_log_task_parents_for_start k tlog (Some new_start) (Some old_start) db)"
    unfolding update_time_log_task_parents_for_start_def prod.case option.case
    by (rule update_total_logged_seconds_spec [OF assms])
  show "adds_total_logged_seconds db (set (ancestors k db t))
           ((new_end - tl_start tlog) - (old_end - tl_start tlog))
           (update_time_log_task_parents_for_end k tlog (Some new_end) (Some old_end) db)"
    unfolding update_time_log_task_parents_for_end_def prod.case option.case
    by (rule update_total_logged_seconds_spec [OF assms])
qed

theorem time_log_listeners_propagate_delta_witness:
  "rooted logged_db (\<lambda>t. if t = 1 then 0 else if t = 2 then 1 else 2)
   \<and> tl_task \<lparr>tl_name = ''log'', tl_task = Some 3, tl_resource = Some 1,
               tl_start = 1800, tl_end = 2400\<rparr> = Some 3
   \<and> (if (3::nat) = 1 then 0 else if (3::nat) = 2 then 1 else 2) < (3::nat)
   \<and> has_total_logged_seconds logged_db (set (ancestors 3 logged_db 3))
   \<and> adds_total_logged_seconds logged_db (set (ancestors 3 logged_db 3))
        ((2400 - 900) - (2400 - 1800))
        (update_time_log_task_parents_for_start 3
           \<lparr>tl_name = ''log'', tl_task = Some 3, tl_resource = Some 1,
             tl_start = 1800, tl_end = 2400\<rparr>
           (Some 900) (Some 1800) logged_db)"
proof -
  let ?d = "\<lambda>t::nat. if t = 1 then 0 else if t = 2 then 1 else (2::nat)"
  let ?log = "\<lparr>tl_name = ''log'', tl_task = Some 3, tl_resource = Some (1::nat),
             tl_start = 1800, tl_end = 2400\<rparr>"
  have r: "rooted logged_db ?d"
    by (simp add: rooted_def logged_db_def new_task_def)
  have t: "tl_task ?log = Some 3" by simp
  have k: "?d 3 < (3::nat)" by simp
  have a: "ancestors 3 logged_db 3 = [2, 1]"
    by (simp add: numeral_3_eq_3 logged_db_def new_task_def)
  have h: "has_total_logged_seconds logged_db (set (ancestors 3 logged_db 3))"
    unfolding a by (simp add: has_total_logged_seconds_def is_container_def logged_db_def
        new_task_def)
  from time_log_listeners_propagate_delta [OF r t k h, of 900 1800, THEN conjunct1]
  have "adds_total_logged_seconds logged_db (set (ancestors 3 logged_db 3))
        ((2400 - 900) - (2400 - 1800))
        (update_time_log_task_parents_for_start 3 ?log (Some 900) (Some 1800) logged_db)"
    by simp
  with r t k h show ?thesis by blast
qed

subsection \<open>Reparenting\<close>












subsection \<open>Expanding the schedule of a task\<close>








lemma plan_update_timing [simp]:
  "strip_schedule (update_task t (\<lambda>x. x\<lparr>schedule_timing := v\<rparr>) db) = strip_schedule db"
  "strip_schedule (update_task t (\<lambda>x. x\<lparr>schedule_unit := u\<rparr>) db) = strip_schedule db"
  by (auto simp: strip_schedule_def update_task_def fun_eq_iff)

lemma plan_reschedule [simp]:
  "strip_schedule (reschedule self timing unit db) = strip_schedule db"
  by (auto simp: reschedule_def strip_schedule_def update_task_def set_dates_def Let_def
      fun_eq_iff split: option.splits prod.splits)















end
